theory Spec2Isabelle
  imports Complex_Main "HOL-Library.List_Lexorder" "HOL-Library.AList"
begin


section \<open>Python strings\<close>

text \<open>
  A Python \<open>str\<close> is a sequence of Unicode code points, and \<open>len\<close>, slicing, \<open>find\<close> and
  the regular expressions of the sources all count code points. A string is therefore a
  list of code points (natural numbers); \<open>u\<close> embeds an ASCII literal.
\<close>

type_synonym codepoint = nat
type_synonym ustring = "codepoint list"

definition u :: "string \<Rightarrow> ustring" where
  "u s = map of_char s"

text \<open>
  \<open>str.isspace\<close> on one code point; the regular-expression class \<open>\s\<close> of a \<open>str\<close>
  pattern is the same set. The code points are U+0009..U+000D, U+001C..U+0020, U+0085,
  U+00A0, U+1680, U+2000..U+200A, U+2028, U+2029, U+202F, U+205F and U+3000.
\<close>

definition isspace :: "codepoint \<Rightarrow> bool" where
  "isspace c \<longleftrightarrow>
     (9 \<le> c \<and> c \<le> 13) \<or> (28 \<le> c \<and> c \<le> 32) \<or> c = 133 \<or> c = 160 \<or> c = 5760 \<or>
     (8192 \<le> c \<and> c \<le> 8202) \<or> c = 8232 \<or> c = 8233 \<or> c = 8239 \<or> c = 8287 \<or> c = 12288"

text \<open>\<open>s.strip()\<close>: whitespace removed at both ends.\<close>

definition strip :: "ustring \<Rightarrow> ustring" where
  "strip s = rev (dropWhile isspace (rev (dropWhile isspace s)))"

text \<open>
  \<open>s.lower()\<close>. Only the code points whose lower case is an ASCII letter matter to the
  sources, which compare the result with ASCII literals: these are \<open>A\<close>..\<open>Z\<close> and the
  Kelvin sign U+212A. Every other code point lowers to a string with a non-ASCII code
  point in it and is left as it is here.
\<close>

definition lower_cp :: "codepoint \<Rightarrow> codepoint" where
  "lower_cp c = (if 65 \<le> c \<and> c \<le> 90 then c + 32 else if c = 8490 then 107 else c)"

definition lower :: "ustring \<Rightarrow> ustring" where
  "lower s = map lower_cp s"

text \<open>\<open>sep.join(parts)\<close>.\<close>

fun join :: "'a list \<Rightarrow> 'a list list \<Rightarrow> 'a list" where
  "join sep [] = []"
| "join sep [x] = x"
| "join sep (x # y # ys) = x @ sep @ join sep (y # ys)"

text \<open>\<open>s[:n]\<close>: a negative \<open>n\<close> counts from the end, and nothing is out of range.\<close>

definition slice_to :: "'a list \<Rightarrow> int \<Rightarrow> 'a list" where
  "slice_to xs n = (if 0 \<le> n then take (nat n) xs else take (nat (int (length xs) + n)) xs)"

text \<open>\<open>s.find(c)\<close> and \<open>s.rfind(c)\<close> for a one-character \<open>c\<close>: an index, or \<open>-1\<close>.\<close>

definition find_cp :: "'a list \<Rightarrow> 'a \<Rightarrow> int" where
  "find_cp s c = (if c \<in> set s then int (length (takeWhile (\<lambda>x. x \<noteq> c) s)) else - 1)"

definition rfind_cp :: "'a list \<Rightarrow> 'a \<Rightarrow> int" where
  "rfind_cp s c =
     (if c \<in> set s then int (length s) - 1 - int (length (takeWhile (\<lambda>x. x \<noteq> c) (rev s)))
      else - 1)"

text \<open>\<open>str(i)\<close> of an integer: decimal digits, with a minus sign below zero.\<close>

fun digits_of :: "nat \<Rightarrow> ustring" where
  "digits_of n = (if n < 10 then [48 + n] else digits_of (n div 10) @ [48 + n mod 10])"

declare digits_of.simps [simp del]

definition str_int :: "int \<Rightarrow> ustring" where
  "str_int i = (if i < 0 then 45 # digits_of (nat (- i)) else digits_of (nat i))"


section \<open>Text utilities (\<open>app/utils/text_utils.py\<close>)\<close>

subsection \<open>\<open>clean_text\<close>\<close>

text \<open>
  \<open>re.sub(r"[^\S\n]+", " ", text)\<close>: every maximal run of whitespace other than the
  newline becomes one space.
\<close>

definition hspace :: "codepoint \<Rightarrow> bool" where
  "hspace c \<longleftrightarrow> isspace c \<and> c \<noteq> 10"

function collapse_hspace :: "ustring \<Rightarrow> ustring" where
  "collapse_hspace [] = []"
| "collapse_hspace (c # cs) =
     (if hspace c then 32 # collapse_hspace (dropWhile hspace cs)
      else c # collapse_hspace cs)"
  by pat_completeness auto
termination
  by (relation "measure length") (auto simp: length_dropWhile_le less_Suc_eq_le)

text \<open>
  \<open>re.sub(r"\n{3,}", "\n\n", text)\<close>: every maximal run of three or more newlines
  becomes two newlines; shorter runs stay.
\<close>

function collapse_newlines :: "ustring \<Rightarrow> ustring" where
  "collapse_newlines [] = []"
| "collapse_newlines (c # cs) =
     (if c = 10 then
        (if 2 \<le> length (takeWhile (\<lambda>x. x = 10) cs) then [10, 10]
         else 10 # takeWhile (\<lambda>x. x = 10) cs)
        @ collapse_newlines (dropWhile (\<lambda>x. x = 10) cs)
      else c # collapse_newlines cs)"
  by pat_completeness auto
termination
  by (relation "measure length") (auto simp: length_dropWhile_le less_Suc_eq_le)

definition clean_text :: "ustring \<Rightarrow> ustring" where
  "clean_text text = strip (collapse_newlines (collapse_hspace text))"

subsection \<open>\<open>estimate_tokens\<close> and \<open>truncate_text\<close>\<close>

text \<open>
  \<open>int(len(text) / 3.5)\<close>. The division is a binary64 division of two exactly
  represented numbers; its exact quotient \<open>2 * len / 7\<close> is an integer or at least \<open>1/7\<close>
  away from one, so for every length below \<open>2^50\<close> the rounded quotient has the same
  integer part, \<open>(2 * len) div 7\<close>. The empty text gives \<open>0\<close> either way.
\<close>

definition estimate_tokens :: "ustring \<Rightarrow> int" where
  "estimate_tokens text = (if text = [] then 0 else (2 * int (length text)) div 7)"

text \<open>
  \<open>int(max_tokens * 3.5)\<close>: the product \<open>7 * max_tokens / 2\<close> is exact in binary64 (below
  \<open>2^50\<close> in size) and \<open>int\<close> rounds towards zero.
\<close>

definition target_chars_of :: "int \<Rightarrow> int" where
  "target_chars_of max_tokens =
     (if 0 \<le> max_tokens then (7 * max_tokens) div 2 else - ((7 * (- max_tokens)) div 2))"

text \<open>The notice appended to a truncated text, with both numbers formatted in decimal.\<close>

definition truncation_warning :: "int \<Rightarrow> int \<Rightarrow> ustring" where
  "truncation_warning current_tokens max_tokens =
     [10, 10,
      91, 1059, 1042, 1040, 1043, 1040, 58, 32, 1058, 1077, 1082, 1089, 1090, 32, 1073, 1091,
      1083, 1086, 32, 1089, 1082, 1086, 1088, 1086, 1095, 1077, 1085, 1086, 32, 1095, 1077,
      1088, 1077, 1079, 32, 1087, 1077, 1088, 1077, 1074, 1080, 1097, 1077, 1085, 1085, 1103,
      32, 1083, 1110, 1084, 1110, 1090, 1091, 32, 1090, 1086, 1082, 1077, 1085, 1110, 1074,
      46, 32,
      1054, 1088, 1080, 1075, 1110, 1085, 1072, 1083, 1100, 1085, 1080, 1081, 32, 1088, 1086,
      1079, 1084, 1110, 1088, 58, 32, 126]
     @ str_int current_tokens
     @ [32, 1090, 1086, 1082, 1077, 1085, 1110, 1074, 44, 32,
        1083, 1110, 1084, 1110, 1090, 58, 32]
     @ str_int max_tokens
     @ [32, 1090, 1086, 1082, 1077, 1085, 1110, 1074, 46, 93]"

text \<open>
  \<open>truncate_text\<close>. The test \<open>last_newline > target_chars * 0.8\<close> compares an integer
  with a binary64 product. The double nearest to \<open>0.8\<close> is \<open>0.8 * (1 + 2^-54)\<close>, so the
  product rounds to \<open>4 * target_chars / 5\<close> when that is an integer and otherwise stays on
  the same side of every integer: the test is \<open>5 * last_newline > 4 * target_chars\<close>.
\<close>

definition truncate_text :: "ustring \<Rightarrow> int \<Rightarrow> ustring \<times> bool" where
  "truncate_text text max_tokens =
     (let current_tokens = estimate_tokens text in
      if current_tokens \<le> max_tokens then (text, False)
      else
        let target_chars = target_chars_of max_tokens;
            truncated = slice_to text target_chars;
            last_newline = rfind_cp truncated 10;
            truncated' = (if 4 * target_chars < 5 * last_newline
                          then slice_to truncated last_newline else truncated)
        in (truncated' @ truncation_warning current_tokens max_tokens, True))"

subsection \<open>\<open>combine_extracted_texts\<close>\<close>

text \<open>
  The argument is a \<open>dict\<close>, iterated in insertion order: an association list with
  distinct keys.
\<close>

definition file_part :: "ustring \<times> ustring \<Rightarrow> ustring" where
  "file_part ft = u ''=== FILE: '' @ fst ft @ u '' ==='' @ [10] @ snd ft"

definition combine_extracted_texts :: "(ustring \<times> ustring) list \<Rightarrow> ustring" where
  "combine_extracted_texts file_texts = join [10, 10] (map file_part file_texts)"


subsection \<open>Shapes left by the two substitutions of \<open>clean_text\<close>\<close>

fun hs_ok :: "ustring \<Rightarrow> bool" where
  "hs_ok [] = True"
| "hs_ok (c # cs) = ((hspace c \<longrightarrow> c = 32 \<and> (cs = [] \<or> \<not> hspace (hd cs))) \<and> hs_ok cs)"

fun nl_ok :: "ustring \<Rightarrow> bool" where
  "nl_ok [] = True"
| "nl_ok (c # cs) = (\<not> (c = 10 \<and> take 2 cs = [10, 10]) \<and> nl_ok cs)"


section \<open>The repair parser (\<open>app/services/json_extractor.py\<close>)\<close>

subsection \<open>Values\<close>

text \<open>
  A Python \<open>float\<close>. \<open>Fin r\<close> stands for the binary64 number nearest to the rational
  \<open>r\<close>: the rounding of \<open>float(...)\<close> and the overflow of a huge decimal literal to
  infinity are not modelled, negation is exact.
\<close>

datatype pyfloat = Fin rat | PInf | NInf | NaN

fun fneg :: "pyfloat \<Rightarrow> pyfloat" where
  "fneg (Fin r) = Fin (- r)"
| "fneg PInf = NInf"
| "fneg NInf = PInf"
| "fneg NaN = NaN"

text \<open>
  What \<open>json.loads\<close> returns. An object is a \<open>dict\<close>: an association list in insertion
  order, with distinct keys.
\<close>

datatype json =
    JNull
  | JBool bool
  | JInt int
  | JFloat pyfloat
  | JStr ustring
  | JArr "json list"
  | JObj "(ustring \<times> json) list"

text \<open>\<open>type(v).__name__\<close>.\<close>

fun type_name :: "json \<Rightarrow> ustring" where
  "type_name JNull = u ''NoneType''"
| "type_name (JBool _) = u ''bool''"
| "type_name (JInt _) = u ''int''"
| "type_name (JFloat _) = u ''float''"
| "type_name (JStr _) = u ''str''"
| "type_name (JArr _) = u ''list''"
| "type_name (JObj _) = u ''dict''"

text \<open>
  The exceptions that leave the parser: \<open>ExtractionError\<close> with its message, and the
  \<open>OverflowError\<close> of \<open>float(i)\<close> for an integer beyond the binary64 range, which nothing
  catches.
\<close>

datatype py_exception = ExtractionError ustring | OverflowError

subsection \<open>The built-in \<open>float\<close>\<close>

text \<open>
  \<open>float(i)\<close> of an integer (a \<open>bool\<close> is an integer): the largest binary64 number is
  \<open>2^1024 - 2^971\<close>, and an integer that rounds beyond it raises \<open>OverflowError\<close>.
\<close>

definition float_of_int :: "int \<Rightarrow> py_exception + pyfloat" where
  "float_of_int i =
     (if 2 ^ 1024 - 2 ^ 970 \<le> \<bar>i\<bar> then Inl OverflowError else Inr (Fin (of_int i)))"

text \<open>
  \<open>float(s)\<close> of a string, after the grammar of the language reference: optional sign, then
  \<open>inf\<close>, \<open>infinity\<close> or \<open>nan\<close> in any case, or a decimal number with an optional
  exponent, where single underscores may separate digits. \<open>None\<close> is the \<open>ValueError\<close>.
  Digits are the ASCII digits; the decimal digits of other scripts, which \<open>float\<close> and
  \<open>str.isdigit\<close> also accept, are outside the model.
\<close>

definition is_digit :: "codepoint \<Rightarrow> bool" where
  "is_digit c \<longleftrightarrow> 48 \<le> c \<and> c \<le> 57"

text \<open>
  \<open>digitpart ::= digit (["_"] digit)*\<close>, read as far as it goes: the digits and the rest. The
  flag says that a digit has just been read, so that an underscore may follow.
\<close>

fun digitpart :: "bool \<Rightarrow> ustring \<Rightarrow> nat list \<times> ustring" where
  "digitpart after [] = ([], [])"
| "digitpart after (c # cs) =
     (if is_digit c then (case digitpart True cs of (ds, r) \<Rightarrow> ((c - 48) # ds, r))
      else if after \<and> c = 95 \<and> (case cs of [] \<Rightarrow> False | d # _ \<Rightarrow> is_digit d)
        then digitpart False cs
      else ([], c # cs))"

definition digits_value :: "nat list \<Rightarrow> nat" where
  "digits_value ds = foldl (\<lambda>a d. 10 * a + d) 0 ds"

definition scale10 :: "rat \<Rightarrow> int \<Rightarrow> rat" where
  "scale10 q e = (if 0 \<le> e then q * 10 ^ nat e else q / 10 ^ nat (- e))"

text \<open>\<open>[sign] digitpart\<close> of an exponent, up to the end of the string.\<close>

definition parse_exponent :: "ustring \<Rightarrow> int option" where
  "parse_exponent s =
     (let (neg, r) = (case s of [] \<Rightarrow> (False, [])
                      | c # cs \<Rightarrow> if c = 43 then (False, cs) else if c = 45 then (True, cs)
                                 else (False, c # cs))
      in case digitpart False r of
           (ds, rest) \<Rightarrow>
             if ds = [] \<or> rest \<noteq> [] then None
             else Some (if neg then - int (digits_value ds) else int (digits_value ds)))"

text \<open>
  \<open>number ::= [digitpart] "." digitpart | digitpart ["."]\<close>, then an optional exponent, up
  to the end of the string.
\<close>

definition parse_decimal :: "ustring \<Rightarrow> rat option" where
  "parse_decimal s =
     (case digitpart False s of
        (ip, r1) \<Rightarrow>
          (case (case r1 of [] \<Rightarrow> Some ([], [])
                 | c # cs \<Rightarrow> if c = 46 then Some (digitpart False cs) else Some ([], c # cs)) of
             None \<Rightarrow> None
           | Some (fp, r2) \<Rightarrow>
               if ip = [] \<and> fp = [] then None
               else
                 (let m = of_nat (digits_value (ip @ fp)) in
                  case r2 of
                    [] \<Rightarrow> Some (scale10 m (- int (length fp)))
                  | c # cs \<Rightarrow>
                      if c = 101 \<or> c = 69 then
                        (case parse_exponent cs of
                           None \<Rightarrow> None
                         | Some e \<Rightarrow> Some (scale10 m (e - int (length fp))))
                      else None)))"

definition py_float :: "ustring \<Rightarrow> pyfloat option" where
  "py_float s0 =
     (let s = strip s0;
          (neg, r) = (case s of [] \<Rightarrow> (False, [])
                      | c # cs \<Rightarrow> if c = 43 then (False, cs) else if c = 45 then (True, cs)
                                 else (False, c # cs))
      in if lower r = u ''inf'' \<or> lower r = u ''infinity'' then Some (if neg then NInf else PInf)
         else if lower r = u ''nan'' then Some NaN
         else (case parse_decimal r of
                 None \<Rightarrow> None
               | Some q \<Rightarrow> Some (Fin (if neg then - q else q))))"

subsection \<open>\<open>_to_float\<close>\<close>

text \<open>
  \<open>re.match(r"^\((.+)\)$", s)\<close> on a stripped \<open>s\<close>: an opening parenthesis first, a
  closing one last, and between them at least one character and no newline (the dot does
  not match it). The group is everything between the two.
\<close>

definition paren_match :: "ustring \<Rightarrow> ustring option" where
  "paren_match s =
     (if 3 \<le> length s \<and> hd s = 40 \<and> last s = 41 \<and> 10 \<notin> set (butlast (tl s))
      then Some (butlast (tl s)) else None)"

text \<open>\<open>s.replace(",", ".").replace(" ", "").replace("\u00a0", "")\<close>.\<close>

definition separators :: "ustring \<Rightarrow> ustring" where
  "separators s =
     filter (\<lambda>c. c \<noteq> 160) (filter (\<lambda>c. c \<noteq> 32) (map (\<lambda>c. if c = 44 then 46 else c) s))"

text \<open>
  \<open>isinstance(val, (int, float))\<close> holds of a \<open>bool\<close> as well, and \<open>float(True)\<close> is
  \<open>1.0\<close>. The function calls itself on the inside of a parenthesised string.
\<close>

function to_float :: "json \<Rightarrow> py_exception + pyfloat option" where
  "to_float (JBool b) = map_sum id Some (float_of_int (if b then 1 else 0))"
| "to_float (JInt i) = map_sum id Some (float_of_int i)"
| "to_float (JFloat f) = Inr (Some f)"
| "to_float (JStr val) =
     (let s = strip val in
      if s = [] \<or> s = u ''-'' \<or> lower s = u ''null'' \<or> lower s = u ''none'' then Inr None
      else
        (case paren_match s of
           Some inner \<Rightarrow> map_sum id (map_option fneg) (to_float (JStr inner))
         | None \<Rightarrow> Inr (py_float (separators s))))"
| "to_float JNull = Inr None"
| "to_float (JArr xs) = Inr None"
| "to_float (JObj kvs) = Inr None"
  by pat_completeness auto
termination
proof (relation "measure (\<lambda>v. case v of JStr s \<Rightarrow> length s | _ \<Rightarrow> 0)")
  show "wf (measure (\<lambda>v. case v of JStr s \<Rightarrow> length s | _ \<Rightarrow> 0))" by simp
next
  fix val s inner
  assume s: "s = strip val" and m: "paren_match s = Some inner"
  have "length (strip val) \<le> length val"
    unfolding strip_def
    by (metis length_rev length_dropWhile_le le_trans)
  moreover have "length inner < length s"
    using m by (auto simp: paren_match_def split: if_splits)
  ultimately show "(JStr inner, JStr val) \<in> measure (\<lambda>v. case v of JStr s \<Rightarrow> length s | _ \<Rightarrow> 0)"
    using s by simp
qed

subsection \<open>\<open>_normalize_section\<close>\<close>

text \<open>
  \<open>k = str(key).strip()\<close>, then \<open>re.sub(r"^\<dots>\.?", "", k).strip()\<close>, where the pattern
  is the Cyrillic letter er (U+0440) with an optional full stop after it.
\<close>

definition normalize_key :: "ustring \<Rightarrow> ustring" where
  "normalize_key key =
     (let k = strip key
      in strip (case k of
                  [] \<Rightarrow> []
                | c # cs \<Rightarrow>
                    if c = 1088 then (case cs of [] \<Rightarrow> [] | d # ds \<Rightarrow> if d = 46 then ds else d # ds)
                    else c # cs))"

text \<open>\<open>k.isdigit()\<close>: not empty and digits only.\<close>

definition isdigit :: "ustring \<Rightarrow> bool" where
  "isdigit k \<longleftrightarrow> k \<noteq> [] \<and> list_all is_digit k"

text \<open>
  The loop over \<open>section.items()\<close>, with the \<open>result\<close> dictionary as accumulator.
  Assigning to a key of a \<open>dict\<close> replaces the value where the key is, or appends the
  key: \<open>AList.update\<close>.
\<close>

fun normalize_items ::
  "(ustring \<times> json) list \<Rightarrow> (ustring \<times> pyfloat) list \<Rightarrow> py_exception + (ustring \<times> pyfloat) list"
where
  "normalize_items [] result = Inr result"
| "normalize_items ((key, val) # items) result =
     (let k = normalize_key key in
      if \<not> isdigit k then normalize_items items result
      else
        (case to_float val of
           Inl e \<Rightarrow> Inl e
         | Inr None \<Rightarrow> normalize_items items result
         | Inr (Some numeric) \<Rightarrow> normalize_items items (AList.update k numeric result)))"

definition normalize_section ::
  "(ustring \<times> json) list \<Rightarrow> py_exception + (ustring \<times> pyfloat) list" where
  "normalize_section section = normalize_items section []"

subsection \<open>\<open>_extract_json_block\<close>\<close>

definition starts_with :: "'a list \<Rightarrow> 'a list \<Rightarrow> bool" where
  "starts_with p s \<longleftrightarrow> take (length p) s = p"

text \<open>The index of the first occurrence of a pattern, if there is one.\<close>

fun find_sub :: "'a list \<Rightarrow> 'a list \<Rightarrow> nat option" where
  "find_sub p [] = (if p = [] then Some 0 else None)"
| "find_sub p (c # cs) =
     (if starts_with p (c # cs) then Some 0 else map_option Suc (find_sub p cs))"

definition fence :: ustring where
  "fence = [96, 96, 96]"

text \<open>
  \<open>re.search(r"```(?:json)?\s*\n?(.*?)\n?```", text, re.DOTALL)\<close>, giving group 1. The
  optional tag, the whitespace and the newlines hold no backtick, so a closing fence
  exists for all ways of matching them or for none, and the search succeeds at the first
  fence of the text or nowhere. There the tag and the whitespace are matched greedily, and
  the lazy group ends at the first fence after them, or at a newline right before it.
\<close>

definition fence_match :: "ustring \<Rightarrow> ustring option" where
  "fence_match text =
     (case find_sub fence text of
        None \<Rightarrow> None
      | Some i \<Rightarrow>
          (let after = drop (i + 3) text;
               untagged = (if starts_with (u ''json'') after then drop 4 after else after);
               body = dropWhile isspace untagged
           in case find_sub fence body of
                None \<Rightarrow> None
              | Some j \<Rightarrow>
                  (let g = take j body
                   in Some (if g \<noteq> [] \<and> last g = 10 then butlast g else g))))"

text \<open>
  The loop over \<open>range(first_brace, len(text))\<close>, on the text from the first brace on:
  \<open>n\<close> characters are behind, and the result is the length of the span that ends where
  the depth returns to zero.
\<close>

fun brace_scan :: "ustring \<Rightarrow> int \<Rightarrow> nat \<Rightarrow> nat option" where
  "brace_scan [] depth n = None"
| "brace_scan (c # cs) depth n =
     (if c = 123 then brace_scan cs (depth + 1) (n + 1)
      else if c = 125 then
        (if depth - 1 = 0 then Some (n + 1) else brace_scan cs (depth - 1) (n + 1))
      else brace_scan cs depth (n + 1))"

definition msg_no_json :: ustring where
  "msg_no_json =
     [74, 83, 79, 78, 45, 1086, 1073, 39, 1108, 1082, 1090, 32, 1085, 1077, 32, 1079, 1085, 1072,
      1081, 1076, 1077, 1085, 1086, 32, 1091, 32, 1074, 1110, 1076, 1087, 1086, 1074, 1110, 1076,
      1110, 32, 76, 76, 77]"

definition extract_json_block :: "ustring \<Rightarrow> py_exception + ustring" where
  "extract_json_block text0 =
     (let text = strip text0 in
      case fence_match text of
        Some g \<Rightarrow> Inr (strip g)
      | None \<Rightarrow>
          if 123 \<notin> set text then Inl (ExtractionError msg_no_json)
          else
            (let from_brace = dropWhile (\<lambda>c. c \<noteq> 123) text
             in case brace_scan from_brace 0 0 of
                  Some n \<Rightarrow> Inr (take n from_brace)
                | None \<Rightarrow> Inr from_brace))"

subsection \<open>\<open>parse_llm_json\<close>\<close>

text \<open>
  The values of the returned dictionary: what \<open>json.loads\<close> gave, or a normalised
  section.
\<close>

datatype dval = Raw json | Section "(ustring \<times> pyfloat) list"

type_synonym dataset = "(ustring \<times> dval) list"

definition required_keys :: "ustring list" where
  "required_keys = [u ''balance_start'', u ''balance_end'', u ''income_current'']"

definition msg_empty :: ustring where
  "msg_empty =
     [76, 76, 77, 32, 1087, 1086, 1074, 1077, 1088, 1085, 1091, 1074, 32, 1087, 1086, 1088, 1086,
      1078, 1085, 1102, 32, 1074, 1110, 1076, 1087, 1086, 1074, 1110, 1076, 1100]"

definition msg_parse :: ustring where
  "msg_parse =
     [1053, 1077, 32, 1074, 1076, 1072, 1083, 1086, 1089, 1103, 32, 1088, 1086, 1079, 1087, 1072,
      1088, 1089, 1080, 1090, 1080, 32, 74, 83, 79, 78, 58, 32]"

definition msg_not_object :: ustring where
  "msg_not_object =
     [1054, 1095, 1110, 1082, 1091, 1074, 1072, 1074, 1089, 1103, 32, 74, 83, 79, 78, 45, 1086,
      1073, 39, 1108, 1082, 1090, 44, 32, 1086, 1090, 1088, 1080, 1084, 1072, 1085, 1086, 58, 32]"

definition msg_missing :: ustring where
  "msg_missing =
     [1042, 1110, 1076, 1089, 1091, 1090, 1085, 1110, 32, 1086, 1073, 1086, 1074, 39, 1103, 1079,
      1082, 1086, 1074, 1110, 32, 1082, 1083, 1102, 1095, 1110, 58, 32]"

definition msg_section :: "ustring \<Rightarrow> ustring \<Rightarrow> ustring" where
  "msg_section key tname =
     [1050, 1083, 1102, 1095, 32, 39] @ key
     @ [39, 32, 1084, 1072, 1108, 32, 1073, 1091, 1090, 1080, 32, 1086, 1073, 39, 1108, 1082,
        1090, 1086, 1084, 44, 32, 1086, 1090, 1088, 1080, 1084, 1072, 1085, 1086, 58, 32]
     @ tname"

definition default_company :: ustring where
  "default_company =
     [1053, 1077, 1074, 1110, 1076, 1086, 1084, 1072, 32, 1082, 1086, 1084, 1087, 1072, 1085,
      1110, 1103]"

definition default_period :: ustring where
  "default_period = [8212]"

text \<open>
  Step 4, the loop over the three section keys: \<open>data.get(key, {})\<close> must be an object and
  is replaced by its normalised form.
\<close>

fun normalize_sections :: "ustring list \<Rightarrow> dataset \<Rightarrow> py_exception + dataset" where
  "normalize_sections [] data = Inr data"
| "normalize_sections (key # keys) data =
     (case (case map_of data key of None \<Rightarrow> Raw (JObj []) | Some v \<Rightarrow> v) of
        Raw (JObj section) \<Rightarrow>
          (case normalize_section section of
             Inl e \<Rightarrow> Inl e
           | Inr sec \<Rightarrow> normalize_sections keys (AList.update key (Section sec) data))
      | Raw v \<Rightarrow> Inl (ExtractionError (msg_section key (type_name v)))
      | Section sec \<Rightarrow>
          (case normalize_section (map (\<lambda>(k, x). (k, JFloat x)) sec) of
             Inl e \<Rightarrow> Inl e
           | Inr sec' \<Rightarrow> normalize_sections keys (AList.update key (Section sec') data)))"

text \<open>\<open>data.setdefault(key, default)\<close>.\<close>

definition setdefault :: "ustring \<Rightarrow> dval \<Rightarrow> dataset \<Rightarrow> dataset" where
  "setdefault key dflt data =
     (if key \<in> set (map fst data) then data else data @ [(key, dflt)])"

text \<open>
  The parser. \<open>json.loads\<close> belongs to the standard library and is an argument: it
  returns the decoded value, or the text of its \<open>JSONDecodeError\<close>.
\<close>

definition parse_llm_json ::
  "(ustring \<Rightarrow> ustring + json) \<Rightarrow> ustring \<Rightarrow> py_exception + dataset" where
  "parse_llm_json loads raw_response =
     (if raw_response = [] \<or> strip raw_response = [] then Inl (ExtractionError msg_empty)
      else
        (case extract_json_block raw_response of
           Inl e \<Rightarrow> Inl e
         | Inr json_str \<Rightarrow>
             (case loads json_str of
                Inl e \<Rightarrow> Inl (ExtractionError (msg_parse @ e))
              | Inr (JObj obj) \<Rightarrow>
                  (let missing = filter (\<lambda>k. k \<notin> set (map fst obj)) required_keys in
                   if missing \<noteq> [] then
                     Inl (ExtractionError (msg_missing @ join (u '', '') (sort missing)))
                   else
                     (case normalize_sections
                             [u ''balance_start'', u ''balance_end'', u ''income_current'']
                             (map (\<lambda>(k, v). (k, Raw v)) obj) of
                        Inl e \<Rightarrow> Inl e
                      | Inr data \<Rightarrow>
                          Inr (setdefault (u ''period'') (Raw (JStr default_period))
                                (setdefault (u ''company_name'') (Raw (JStr default_company))
                                   data))))
              | Inr v \<Rightarrow> Inl (ExtractionError (msg_not_object @ type_name v)))))"

subsection \<open>A model of \<open>json.loads\<close>\<close>

text \<open>
  The decoder of the standard library, after its Python sources (\<open>json/decoder.py\<close>,
  \<open>json/scanner.py\<close>), for the concrete runs below; the properties of the parser are proved
  for every decoder. The nesting is a recursion on fuel: every call happens after at least
  one character has been read, so \<open>length s + 1\<close> never runs out. The text of the
  decoder's message (kind and position) is not modelled: \<open>decode_error\<close> stands for it.
\<close>

definition decode_error :: ustring where
  "decode_error = u ''JSONDecodeError''"

definition json_ws :: "codepoint \<Rightarrow> bool" where
  "json_ws c \<longleftrightarrow> c = 32 \<or> c = 9 \<or> c = 10 \<or> c = 13"

definition skip_ws :: "ustring \<Rightarrow> ustring" where
  "skip_ws s = dropWhile json_ws s"

definition hex_value :: "codepoint \<Rightarrow> nat option" where
  "hex_value c =
     (if 48 \<le> c \<and> c \<le> 57 then Some (c - 48)
      else if 97 \<le> c \<and> c \<le> 102 then Some (c - 87)
      else if 65 \<le> c \<and> c \<le> 70 then Some (c - 55)
      else None)"

text \<open>\<open>_decode_uXXXX\<close>: exactly four hexadecimal digits.\<close>

definition decode_uXXXX :: "ustring \<Rightarrow> nat option" where
  "decode_uXXXX s =
     (if length s < 4 \<or> \<not> list_all (\<lambda>c. hex_value c \<noteq> None) (take 4 s) then None
      else Some (foldl (\<lambda>a c. 16 * a + the (hex_value c)) 0 (take 4 s)))"

definition backslash :: "codepoint \<Rightarrow> codepoint option" where
  "backslash c =
     (if c = 34 \<or> c = 92 \<or> c = 47 then Some c
      else if c = 98 then Some 8
      else if c = 102 then Some 12
      else if c = 110 then Some 10
      else if c = 114 then Some 13
      else if c = 116 then Some 9
      else None)"

text \<open>
  \<open>scanstring\<close> in strict mode, from behind the opening quote: the string and what follows
  its closing quote. A high surrogate followed by an escaped low surrogate is one code point.
\<close>

fun scan_string :: "ustring \<Rightarrow> (ustring \<times> ustring) option" where
  "scan_string [] = None"
| "scan_string (c # cs) =
     (if c = 34 then Some ([], cs)
      else if c = 92 then
        (case cs of
           [] \<Rightarrow> None
         | e # r \<Rightarrow>
             if e \<noteq> 117 then
               (case backslash e of
                  None \<Rightarrow> None
                | Some ch \<Rightarrow> map_option (\<lambda>(str, rest). (ch # str, rest)) (scan_string r))
             else
               (case decode_uXXXX r of
                  None \<Rightarrow> None
                | Some uni \<Rightarrow>
                    if 55296 \<le> uni \<and> uni \<le> 56319 \<and> starts_with [92, 117] (drop 4 r) then
                      (case decode_uXXXX (drop 6 r) of
                         None \<Rightarrow> None
                       | Some uni2 \<Rightarrow>
                           if 56320 \<le> uni2 \<and> uni2 \<le> 57343 then
                             map_option
                               (\<lambda>(str, rest).
                                  ((65536 + ((uni - 55296) * 1024 + (uni2 - 56320))) # str, rest))
                               (scan_string (drop 10 r))
                           else map_option (\<lambda>(str, rest). (uni # str, rest)) (scan_string (drop 4 r)))
                    else map_option (\<lambda>(str, rest). (uni # str, rest)) (scan_string (drop 4 r))))
      else if c < 32 then None
      else map_option (\<lambda>(str, rest). (c # str, rest)) (scan_string cs))"

text \<open>
  \<open>NUMBER_RE\<close>, \<open>(-?(?:0|[1-9][0-9]*))(\.[0-9]+)?([eE][-+]?[0-9]+)?\<close>, matched at the front:
  the lengths of the integer part, the fraction and the exponent.
\<close>

definition number_int_len :: "ustring \<Rightarrow> nat option" where
  "number_int_len s =
     (let sign = (if s \<noteq> [] \<and> hd s = 45 then 1 else 0); r = drop sign s
      in case r of
           [] \<Rightarrow> None
         | c # cs \<Rightarrow>
             if c = 48 then Some (sign + 1)
             else if is_digit c then Some (sign + 1 + length (takeWhile is_digit cs))
             else None)"

definition number_frac_len :: "ustring \<Rightarrow> nat" where
  "number_frac_len r =
     (case r of
        [] \<Rightarrow> 0
      | c # cs \<Rightarrow> if c = 46 \<and> cs \<noteq> [] \<and> is_digit (hd cs)
                 then 1 + length (takeWhile is_digit cs) else 0)"

definition number_exp_len :: "ustring \<Rightarrow> nat" where
  "number_exp_len r =
     (case r of
        [] \<Rightarrow> 0
      | c # cs \<Rightarrow>
          if c = 101 \<or> c = 69 then
            (let sign = (if cs \<noteq> [] \<and> (hd cs = 45 \<or> hd cs = 43) then 1 else 0);
                 ds = takeWhile is_digit (drop sign cs)
             in if ds = [] then 0 else 1 + sign + length ds)
          else 0)"

text \<open>
  A number: \<open>int(integer)\<close> without fraction and exponent, \<open>float(integer + frac + exp)\<close>
  otherwise.
\<close>

definition scan_number :: "ustring \<Rightarrow> (json \<times> ustring) option" where
  "scan_number s =
     (case number_int_len s of
        None \<Rightarrow> None
      | Some n \<Rightarrow>
          (let f = number_frac_len (drop n s);
               e = number_exp_len (drop (n + f) s)
           in if f = 0 \<and> e = 0 then
                (let ds = map (\<lambda>c. c - 48) (filter is_digit (take n s))
                 in Some (JInt (if hd s = 45 then - int (digits_value ds) else int (digits_value ds)),
                          drop n s))
              else
                (case py_float (take (n + f + e) s) of
                   None \<Rightarrow> None
                 | Some x \<Rightarrow> Some (JFloat x, drop (n + f + e) s))))"

text \<open>\<open>dict(pairs)\<close>: a repeated key keeps its first place and takes its last value.\<close>

definition dict_of :: "('k \<times> 'v) list \<Rightarrow> ('k \<times> 'v) list" where
  "dict_of pairs = foldl (\<lambda>d kv. AList.update (fst kv) (snd kv) d) [] pairs"

text \<open>
  \<open>scan_once\<close>, \<open>JSONObject\<close> (from behind the opening quote of a key) and \<open>JSONArray\<close> (at
  a value).
\<close>

fun scan_once :: "nat \<Rightarrow> ustring \<Rightarrow> (json \<times> ustring) option"
  and scan_members ::
    "nat \<Rightarrow> ustring \<Rightarrow> (ustring \<times> json) list \<Rightarrow> ((ustring \<times> json) list \<times> ustring) option"
  and scan_elements :: "nat \<Rightarrow> ustring \<Rightarrow> json list \<Rightarrow> (json list \<times> ustring) option"
where
  "scan_once 0 s = None"
| "scan_once (Suc n) s =
     (case s of
        [] \<Rightarrow> None
      | c # cs \<Rightarrow>
          if c = 34 then map_option (\<lambda>(str, rest). (JStr str, rest)) (scan_string cs)
          else if c = 123 then
            (case skip_ws cs of
               [] \<Rightarrow> None
             | d # ds \<Rightarrow>
                 if d = 125 then Some (JObj [], ds)
                 else if d = 34 then
                   map_option (\<lambda>(pairs, rest). (JObj (dict_of pairs), rest)) (scan_members n ds [])
                 else None)
          else if c = 91 then
            (case skip_ws cs of
               [] \<Rightarrow> None
             | d # ds \<Rightarrow>
                 if d = 93 then Some (JArr [], ds)
                 else map_option (\<lambda>(vs, rest). (JArr vs, rest)) (scan_elements n (d # ds) []))
          else if starts_with (u ''null'') s then Some (JNull, drop 4 s)
          else if starts_with (u ''true'') s then Some (JBool True, drop 4 s)
          else if starts_with (u ''false'') s then Some (JBool False, drop 5 s)
          else
            (case scan_number s of
               Some res \<Rightarrow> Some res
             | None \<Rightarrow>
                 if starts_with (u ''NaN'') s then Some (JFloat NaN, drop 3 s)
                 else if starts_with (u ''Infinity'') s then Some (JFloat PInf, drop 8 s)
                 else if starts_with (u ''-Infinity'') s then Some (JFloat NInf, drop 9 s)
                 else None))"
| "scan_members 0 s pairs = None"
| "scan_members (Suc n) s pairs =
     (case scan_string s of
        None \<Rightarrow> None
      | Some (key, r1) \<Rightarrow>
          (case skip_ws r1 of
             [] \<Rightarrow> None
           | c # r2 \<Rightarrow>
               if c \<noteq> 58 then None
               else
                 (case scan_once n (skip_ws r2) of
                    None \<Rightarrow> None
                  | Some (v, r3) \<Rightarrow>
                      (case skip_ws r3 of
                         [] \<Rightarrow> None
                       | d # r4 \<Rightarrow>
                           if d = 125 then Some (pairs @ [(key, v)], r4)
                           else if d \<noteq> 44 then None
                           else
                             (case skip_ws r4 of
                                [] \<Rightarrow> None
                              | q # r5 \<Rightarrow>
                                  if q = 34 then scan_members n r5 (pairs @ [(key, v)])
                                  else None)))))"
| "scan_elements 0 s vs = None"
| "scan_elements (Suc n) s vs =
     (case scan_once n s of
        None \<Rightarrow> None
      | Some (v, r1) \<Rightarrow>
          (case skip_ws r1 of
             [] \<Rightarrow> None
           | d # r2 \<Rightarrow>
               if d = 93 then Some (vs @ [v], r2)
               else if d \<noteq> 44 then None
               else scan_elements n (skip_ws r2) (vs @ [v])))"

text \<open>
  \<open>json.loads(s)\<close> for a \<open>str\<close>: no byte order mark, one value between whitespace, and
  nothing after it.
\<close>

definition json_loads :: "ustring \<Rightarrow> ustring + json" where
  "json_loads s =
     (if s \<noteq> [] \<and> hd s = 65279 then Inl decode_error
      else
        (case scan_once (Suc (length s)) (skip_ws s) of
           None \<Rightarrow> Inl decode_error
         | Some (v, rest) \<Rightarrow> if skip_ws rest = [] then Inr v else Inl decode_error))"

subsection \<open>Notions used to state the properties of the parser\<close>




text \<open>A text holds a fence when three backticks in a row occur in it.\<close>

definition has_fence :: "ustring \<Rightarrow> bool" where
  "has_fence s \<longleftrightarrow> find_sub fence s \<noteq> None"


section \<open>PDF extraction (\<open>app/services/pdf_extractor.py\<close>)\<close>

type_synonym bytes = "nat list"

text \<open>
  A page of an opened document, as far as the extractor looks at it: \<open>page.get_text()\<close>
  and, for a resolution, \<open>page.get_pixmap(dpi=...).tobytes("png")\<close>.
\<close>

record page =
  get_text :: ustring
  get_pixmap :: "nat \<Rightarrow> bytes"

definition MIN_TEXT_LENGTH :: nat where
  "MIN_TEXT_LENGTH = 50"

definition page_header :: "nat \<Rightarrow> ustring" where
  "page_header n = u ''--- Page '' @ str_int (int n) @ u '' ---'' @ [10]"

text \<open>
  The loop over \<open>enumerate(doc)\<close>. The OCR function may raise, which ends the extraction.
  The calls of the OCR function are recorded as they happen, each with the index of the
  page it is made for and the image it is given.
\<close>

fun pdf_pages ::
  "(bytes \<Rightarrow> 'e + ustring) \<Rightarrow> page list \<Rightarrow> nat \<Rightarrow> ustring list \<Rightarrow> nat \<Rightarrow> (nat \<times> bytes) list
     \<Rightarrow> ('e + ustring list \<times> nat) \<times> (nat \<times> bytes) list"
where
  "pdf_pages ocr_func [] page_num full_text ocr_pages calls =
     (Inr (full_text, ocr_pages), calls)"
| "pdf_pages ocr_func (p # ps) page_num full_text ocr_pages calls =
     (let text = get_text p in
      if length (strip text) < MIN_TEXT_LENGTH then
        (let img_bytes = get_pixmap p 300 in
         case ocr_func img_bytes of
           Inl e \<Rightarrow> (Inl e, calls @ [(page_num, img_bytes)])
         | Inr text' \<Rightarrow>
             pdf_pages ocr_func ps (page_num + 1)
               (full_text @ [page_header (page_num + 1) @ text']) (ocr_pages + 1)
               (calls @ [(page_num, img_bytes)]))
      else
        pdf_pages ocr_func ps (page_num + 1)
          (full_text @ [page_header (page_num + 1) @ text]) ocr_pages calls)"

text \<open>
  \<open>extract_text_from_pdf\<close>, with \<open>fitz.open\<close> as an argument: the pages of the document,
  or the exception of the library.
\<close>

definition extract_text_from_pdf ::
  "(bytes \<Rightarrow> 'e + page list) \<Rightarrow> (bytes \<Rightarrow> 'e + ustring) \<Rightarrow> bytes
     \<Rightarrow> ('e + ustring) \<times> (nat \<times> bytes) list" where
  "extract_text_from_pdf fitz_open ocr_func file_bytes =
     (case fitz_open file_bytes of
        Inl e \<Rightarrow> (Inl e, [])
      | Inr doc \<Rightarrow>
          (case pdf_pages ocr_func doc 0 [] 0 [] of
             (Inl e, calls) \<Rightarrow> (Inl e, calls)
           | (Inr (full_text, ocr_pages), calls) \<Rightarrow> (Inr (join [10, 10] full_text), calls)))"


section \<open>The dispatcher (\<open>app/services/extractor.py\<close>)\<close>

definition ALLOWED_EXTENSIONS :: "ustring list" where
  "ALLOWED_EXTENSIONS = [u ''.pdf'', u ''.png'', u ''.jpg'', u ''.jpeg'', u ''.xlsx'', u ''.docx'']"

definition IMAGE_EXTENSIONS :: "ustring list" where
  "IMAGE_EXTENSIONS = [u ''.png'', u ''.jpg'', u ''.jpeg'']"

definition get_extension :: "ustring \<Rightarrow> ustring" where
  "get_extension filename =
     (let dot_idx = rfind_cp filename 46 in
      if dot_idx = - 1 then [] else lower (drop (nat dot_idx) filename))"

definition is_allowed_extension :: "ustring \<Rightarrow> bool" where
  "is_allowed_extension filename \<longleftrightarrow> get_extension filename \<in> set ALLOWED_EXTENSIONS"

text \<open>
  The extractors of the four formats rest on libraries and are arguments: the opening of a
  PDF, the OCR function (which is also the image extractor), and the spreadsheet and
  document extractors. An exception is a library's or the \<open>ValueError\<close> of the dispatcher.
\<close>

record 'e extractors =
  fitz_open :: "bytes \<Rightarrow> 'e + page list"
  ocr_from_bytes :: "bytes \<Rightarrow> 'e + ustring"
  extract_text_from_excel :: "bytes \<Rightarrow> 'e + ustring"
  extract_text_from_docx :: "bytes \<Rightarrow> 'e + ustring"

datatype 'e extract_error = LibraryError 'e | ValueError ustring

definition extract_text :: "'e extractors \<Rightarrow> ustring \<Rightarrow> bytes \<Rightarrow> 'e extract_error + ustring" where
  "extract_text ex filename file_bytes =
     (let ext = get_extension filename;
          raw_text =
            (if ext = u ''.pdf'' then
               map_sum LibraryError id
                 (fst (extract_text_from_pdf (fitz_open ex) (ocr_from_bytes ex) file_bytes))
             else if ext \<in> set IMAGE_EXTENSIONS then
               map_sum LibraryError id (ocr_from_bytes ex file_bytes)
             else if ext = u ''.xlsx'' then
               map_sum LibraryError id (extract_text_from_excel ex file_bytes)
             else if ext = u ''.docx'' then
               map_sum LibraryError id (extract_text_from_docx ex file_bytes)
             else Inl (ValueError (u ''Unsupported file extension: '' @ ext)))
      in map_sum id clean_text raw_text)"


section \<open>The pipeline (\<open>app/routers/analyze.py\<close>)\<close>

text \<open>
  An uploaded file: its name, which may be missing, and what \<open>read()\<close> returns.
\<close>

record upload =
  filename :: "ustring option"
  content :: bytes

definition MAX_FILES :: nat where
  "MAX_FILES = 10"

text \<open>
  What the handler does to the world, in order: reading an upload (by its position in the
  request), extracting the text of a file, loading a prompt template, and the two calls of
  the language model.
\<close>

datatype event =
    ReadFile nat
  | ExtractText ustring
  | LoadPrompt ustring
  | QueryJson ustring ustring
  | QueryReport ustring ustring

text \<open>
  How a request fails: an \<open>HTTPException\<close> with its status code (the detail text is not
  modelled), or an exception that nothing in the handler catches.
\<close>

datatype 'e failure = HTTPException nat | Unhandled 'e | UnhandledParser py_exception

text \<open>
  The configuration and the collaborators of the handler: the extractors, the loader of
  the prompt templates, the two model calls, \<open>json.loads\<close>, and the calculation engine with
  the formatting of its result (\<open>calculate_all\<close> followed by
  \<open>_format_calculations_for_llm\<close>, whose number formatting is floating point).
\<close>

record ('e, 'c) env =
  max_upload_size_mb :: nat
  max_total_tokens_estimate :: int
  extraction_prompt_file :: ustring
  report_prompt_file :: ustring
  extractors :: "'e extractors"
  load_prompt :: "ustring \<Rightarrow> 'e + ustring"
  query_ollama_json :: "ustring \<Rightarrow> ustring \<Rightarrow> 'e + ustring"
  query_ollama_report :: "ustring \<Rightarrow> ustring \<Rightarrow> 'e + ustring"
  json_decoder :: "ustring \<Rightarrow> ustring + json"
  calculate_all :: "dataset \<Rightarrow> 'e + 'c"
  format_calculations :: "'c \<Rightarrow> ustring"

record 'e response =
  report :: ustring
  extracted_data :: dataset
  files_processed :: "ustring list"
  tokens_estimated :: int
  failed_files :: "(ustring \<times> 'e extract_error) list"
  warning :: bool

subsection \<open>Validation\<close>

text \<open>The count of the files first, then the extension of each, in order.\<close>

definition validate :: "upload list \<Rightarrow> nat option" where
  "validate files =
     (if length files < 1 \<or> MAX_FILES < length files then Some 400
      else if list_ex (\<lambda>f. \<not> is_allowed_extension (case filename f of None \<Rightarrow> [] | Some n \<Rightarrow> n))
                files
        then Some 422
      else None)"

subsection \<open>Reading\<close>

text \<open>
  The loop that reads the files, with the running total of the sizes; \<open>i\<close> is the
  position of the next file.
\<close>

fun read_files ::
  "nat \<Rightarrow> upload list \<Rightarrow> nat \<Rightarrow> nat \<Rightarrow> (ustring \<times> bytes) list \<Rightarrow> event list
     \<Rightarrow> (nat + (ustring \<times> bytes) list) \<times> event list"
where
  "read_files max_size [] i total_size file_data trace = (Inr file_data, trace)"
| "read_files max_size (f # fs) i total_size file_data trace =
     (let total_size' = total_size + length (content f) in
      if max_size < total_size' then (Inl 413, trace @ [ReadFile i])
      else
        read_files max_size fs (i + 1) total_size'
          (file_data @ [(case filename f of None \<Rightarrow> u ''unknown'' | Some n \<Rightarrow> n, content f)])
          (trace @ [ReadFile i]))"

subsection \<open>Extraction of every file\<close>

text \<open>
  The loop over \<open>file_data\<close>. \<open>file_texts\<close> is a \<open>dict\<close> keyed by file name: assigning
  to a name that is there already replaces the text where the name stands.
\<close>

fun extract_files ::
  "'e extractors \<Rightarrow> (ustring \<times> bytes) list \<Rightarrow> (ustring \<times> ustring) list
     \<Rightarrow> (ustring \<times> 'e extract_error) list \<Rightarrow> event list
     \<Rightarrow> (ustring \<times> ustring) list \<times> (ustring \<times> 'e extract_error) list \<times> event list"
where
  "extract_files ex [] file_texts failed trace = (file_texts, failed, trace)"
| "extract_files ex ((name, bytes) # rest) file_texts failed trace =
     (case extract_text ex name bytes of
        Inr text \<Rightarrow>
          extract_files ex rest (AList.update name text file_texts) failed
            (trace @ [ExtractText name])
      | Inl e \<Rightarrow>
          extract_files ex rest file_texts (failed @ [(name, e)]) (trace @ [ExtractText name]))"

subsection \<open>The requests to the model\<close>

text \<open>\<open>s.replace(old, new)\<close> for a non-empty \<open>old\<close>; \<open>k\<close> characters of a match are still to skip.\<close>

fun replace_from :: "'a list \<Rightarrow> 'a list \<Rightarrow> nat \<Rightarrow> 'a list \<Rightarrow> 'a list" where
  "replace_from old new k [] = []"
| "replace_from old new (Suc k) (c # cs) = replace_from old new k cs"
| "replace_from old new 0 (c # cs) =
     (if starts_with old (c # cs) then new @ replace_from old new (length old - 1) cs
      else c # replace_from old new 0 cs)"

definition replace :: "'a list \<Rightarrow> 'a list \<Rightarrow> 'a list \<Rightarrow> 'a list" where
  "replace s old new = replace_from old new 0 s"

definition marker_documents :: ustring where
  "marker_documents =
     [45, 45, 45, 32, 1044, 1054, 1050, 1059, 1052, 1045, 1053, 1058, 1048, 32, 45, 45, 45]"

definition marker_calculations :: ustring where
  "marker_calculations =
     [45, 45, 45, 32, 1056, 1054, 1047, 1056, 1040, 1061, 1059, 1053, 1050, 1048, 32, 45, 45, 45]"

definition marker_instructions :: ustring where
  "marker_instructions =
     [45, 45, 45, 32, 1044, 1054, 1044, 1040, 1058, 1050, 1054, 1042, 1030, 32, 1030, 1053, 1057,
      1058, 1056, 1059, 1050, 1062, 1030, 1031, 32, 45, 45, 45]"

text \<open>
  The system and user parts of a request: with the marker in the template, what stands
  before the marker and the marker with the text; without it, no system part and the
  template with its placeholder filled in.
\<close>

definition build_request :: "ustring \<Rightarrow> ustring \<Rightarrow> ustring \<Rightarrow> ustring \<Rightarrow> ustring \<times> ustring" where
  "build_request template marker placeholder body =
     (case find_sub marker template of
        Some i \<Rightarrow> (strip (take i template), marker @ [10] @ body)
      | None \<Rightarrow> ([], replace template placeholder body))"

subsection \<open>The handler\<close>

text \<open>
  Steps 1 to 3, from the combined text on. A failure of a model call or of the loading of
  a template becomes status 500, as does an \<open>ExtractionError\<close> of the parser; an
  \<open>OverflowError\<close> of the parser and an exception of the calculation engine are not caught.
\<close>

definition run_steps ::
  "('e, 'c) env \<Rightarrow> ustring \<Rightarrow> ustring \<Rightarrow> event list
     \<Rightarrow> ('e failure + ustring \<times> dataset) \<times> event list" where
  "run_steps cfg combined_text user_instructions trace =
     (let trace1 = trace @ [LoadPrompt (extraction_prompt_file cfg)] in
      case load_prompt cfg (extraction_prompt_file cfg) of
        Inl e \<Rightarrow> (Inl (HTTPException 500), trace1)
      | Inr extraction_prompt \<Rightarrow>
          (let (extraction_system, extraction_user_content) =
                 build_request extraction_prompt marker_documents (u ''{documents}'') combined_text;
               trace2 = trace1 @ [QueryJson extraction_system extraction_user_content]
           in case query_ollama_json cfg extraction_system extraction_user_content of
                Inl e \<Rightarrow> (Inl (HTTPException 500), trace2)
              | Inr raw_json_response \<Rightarrow>
                  (case parse_llm_json (json_decoder cfg) raw_json_response of
                     Inl (ExtractionError msg) \<Rightarrow> (Inl (HTTPException 500), trace2)
                   | Inl OverflowError \<Rightarrow> (Inl (UnhandledParser OverflowError), trace2)
                   | Inr data \<Rightarrow>
                       (case calculate_all cfg data of
                          Inl e \<Rightarrow> (Inl (Unhandled e), trace2)
                        | Inr calc_result \<Rightarrow>
                            (let calculations_text = format_calculations cfg calc_result;
                                 trace3 = trace2 @ [LoadPrompt (report_prompt_file cfg)]
                             in case load_prompt cfg (report_prompt_file cfg) of
                                  Inl e \<Rightarrow> (Inl (HTTPException 500), trace3)
                                | Inr report_prompt \<Rightarrow>
                                    (let (report_system, content0) =
                                           build_request report_prompt marker_calculations
                                             (u ''{calculations}'') calculations_text;
                                         report_user_content =
                                           (if strip user_instructions \<noteq> [] then
                                              content0 @ [10, 10] @ marker_instructions @ [10]
                                                @ strip user_instructions
                                            else content0);
                                         trace4 = trace3 @ [QueryReport report_system report_user_content]
                                     in case query_ollama_report cfg report_system report_user_content of
                                          Inl e \<Rightarrow> (Inl (HTTPException 500), trace4)
                                        | Inr report_html \<Rightarrow>
                                            (Inr (replace report_html [10] (u ''<br>'' @ [10]), data),
                                             trace4)))))))"

text \<open>\<open>analyze_documents\<close>: the outcome of a request and what it did, in order.\<close>

definition analyze_documents ::
  "('e, 'c) env \<Rightarrow> upload list \<Rightarrow> ustring \<Rightarrow> ('e failure + 'e response) \<times> event list" where
  "analyze_documents cfg files user_instructions =
     (case validate files of
        Some status \<Rightarrow> (Inl (HTTPException status), [])
      | None \<Rightarrow>
          (case read_files (max_upload_size_mb cfg * 1024 * 1024) files 0 0 [] [] of
             (Inl status, trace) \<Rightarrow> (Inl (HTTPException status), trace)
           | (Inr file_data, trace) \<Rightarrow>
               (case extract_files (extractors cfg) file_data [] [] trace of
                  (file_texts, failed, trace') \<Rightarrow>
                    if file_texts = [] then (Inl (HTTPException 422), trace')
                    else
                      (let combined_text = combine_extracted_texts file_texts;
                           tokens = estimate_tokens combined_text;
                           (combined_text', was_truncated) =
                             (if max_total_tokens_estimate cfg < tokens
                              then truncate_text combined_text (max_total_tokens_estimate cfg)
                              else (combined_text, False));
                           tokens' = (if max_total_tokens_estimate cfg < tokens
                                      then estimate_tokens combined_text' else tokens)
                       in case run_steps cfg combined_text' user_instructions trace' of
                            (Inl failure, trace'') \<Rightarrow> (Inl failure, trace'')
                          | (Inr (report_html, data), trace'') \<Rightarrow>
                              (Inr \<lparr>report = report_html, extracted_data = data,
                                    files_processed = map fst file_texts,
                                    tokens_estimated = tokens',
                                    failed_files = failed,
                                    warning = was_truncated\<rparr>,
                               trace'')))))"

subsection \<open>Notions used to state the properties of the extraction and the pipeline\<close>

text \<open>A page counts as a scan when its native text, trimmed, has fewer than 50 characters.\<close>

definition needs_ocr :: "page \<Rightarrow> bool" where
  "needs_ocr p \<longleftrightarrow> length (strip (get_text p)) < 50"

text \<open>The OCR calls a document asks for: one per scanned page, in page order, at 300 DPI.\<close>

definition expected_calls :: "nat \<Rightarrow> page list \<Rightarrow> (nat \<times> bytes) list" where
  "expected_calls n doc =
     map (\<lambda>ip. (fst ip, get_pixmap (snd ip) 300))
       (filter (\<lambda>ip. needs_ocr (snd ip)) (List.enumerate n doc))"

text \<open>The text of a page: what the OCR function returns for a scan, the native text otherwise.\<close>

definition page_text :: "(bytes \<Rightarrow> 'e + ustring) \<Rightarrow> page \<Rightarrow> ustring" where
  "page_text ocr_func p =
     (if needs_ocr p then (case ocr_func (get_pixmap p 300) of Inr t \<Rightarrow> t | Inl e \<Rightarrow> [])
      else get_text p)"

definition expected_parts :: "(bytes \<Rightarrow> 'e + ustring) \<Rightarrow> nat \<Rightarrow> page list \<Rightarrow> ustring list" where
  "expected_parts ocr_func n doc =
     map (\<lambda>ip. page_header (fst ip + 1) @ page_text ocr_func (snd ip)) (List.enumerate n doc)"



text \<open>
  An environment for concrete runs: spreadsheets and documents hold their text as it is,
  PDF and OCR are out of order, and no prompt template can be loaded.
\<close>

definition sample_extractors :: "unit extractors" where
  "sample_extractors =
     \<lparr>fitz_open = (\<lambda>b. Inl ()), ocr_from_bytes = (\<lambda>b. Inl ()),
      extract_text_from_excel = (\<lambda>b. Inr b), extract_text_from_docx = (\<lambda>b. Inr b)\<rparr>"

definition sample_env :: "(unit, unit) env" where
  "sample_env =
     \<lparr>max_upload_size_mb = 50, max_total_tokens_estimate = 60000,
      extraction_prompt_file = u ''prompts/extraction_prompt.txt'',
      report_prompt_file = u ''prompts/report_prompt.txt'',
      extractors = sample_extractors,
      load_prompt = (\<lambda>p. Inl ()),
      query_ollama_json = (\<lambda>s c. Inl ()),
      query_ollama_report = (\<lambda>s c. Inl ()),
      json_decoder = json_loads,
      calculate_all = (\<lambda>d. Inl ()),
      format_calculations = (\<lambda>c. [])\<rparr>"

section \<open>Properties of \<open>clean_text\<close>\<close>

lemma strip_prefix_suffix: "\<exists>a b. s = a @ strip s @ b"
proof -
  let ?x = "dropWhile isspace s"
  have "s = takeWhile isspace s @ ?x" by simp
  moreover have "?x = strip s @ rev (takeWhile isspace (rev ?x))"
    unfolding strip_def by (metis rev_append rev_rev_ident takeWhile_dropWhile_id)
  ultimately show ?thesis by metis
qed

lemma hs_ok_fix: "hs_ok s \<Longrightarrow> collapse_hspace s = s"
proof (induction s)
  case Nil then show ?case by simp
next
  case (Cons c cs)
  then show ?case by (cases cs) auto
qed

lemma collapse_hspace_hd: "s \<noteq> [] \<Longrightarrow> \<not> hspace (hd s) \<Longrightarrow> collapse_hspace s \<noteq> [] \<and> hd (collapse_hspace s) = hd s"
  by (cases s) auto

lemma collapse_hspace_Nil: "collapse_hspace s = [] \<longleftrightarrow> s = []"
  by (cases s) auto

lemma hs_ok_collapse: "hs_ok (collapse_hspace s)"
proof (induction s rule: collapse_hspace.induct)
  case 1 show ?case by simp
next
  case (2 c cs)
  show ?case
  proof (cases "hspace c")
    case True
    let ?r = "dropWhile hspace cs"
    have "?r = [] \<or> \<not> hspace (hd ?r)" by (metis hd_dropWhile)
    then have "collapse_hspace ?r = [] \<or> \<not> hspace (hd (collapse_hspace ?r))"
      using collapse_hspace_hd collapse_hspace_Nil by metis
    with True 2 show ?thesis by simp
  next
    case False
    with 2 show ?thesis by simp
  qed
qed

lemma hs_ok_append: "hs_ok (a @ b) \<Longrightarrow> hs_ok a \<and> hs_ok b"
  by (induction a) (auto simp: hd_append split: if_splits)

lemma nl_ok_append: "nl_ok (a @ b) \<Longrightarrow> nl_ok a \<and> nl_ok b"
proof (induction a)
  case Nil then show ?case by simp
next
  case (Cons c cs)
  have "take 2 cs = [10, 10] \<Longrightarrow> take 2 (cs @ b) = [10, 10]"
    by (cases cs; cases "tl cs") auto
  with Cons show ?case by auto
qed

lemma collapse_newlines_Nil: "collapse_newlines s = [] \<longleftrightarrow> s = []"
  by (cases s) auto

lemma collapse_newlines_hd: "s \<noteq> [] \<Longrightarrow> hd (collapse_newlines s) = hd s"
  by (cases s) auto

lemma hs_ok_newlines: "\<forall>x\<in>set ns. x = 10 \<Longrightarrow> hs_ok (ns @ s) = hs_ok s"
  by (induction ns) (auto simp: hspace_def)

lemma hs_ok_collapse_newlines: "hs_ok s \<Longrightarrow> hs_ok (collapse_newlines s)"
proof (induction s rule: collapse_newlines.induct)
  case 1 show ?case by simp
next
  case (2 c cs)
  let ?run = "takeWhile (\<lambda>x. x = 10) cs" and ?rest = "dropWhile (\<lambda>x. x = 10) cs"
  let ?ns = "if 2 \<le> length ?run then [10, 10] else 10 # ?run"
  show ?case
  proof (cases "c = 10")
    case True
    have "hs_ok cs" using 2(3) by simp
    then have "hs_ok (?run @ ?rest)" by simp
    then have "hs_ok ?rest" using hs_ok_append by blast
    then have ih: "hs_ok (collapse_newlines ?rest)" using 2(1) True by simp
    have ns: "\<forall>x\<in>set ?ns. x = 10"
      by (auto dest: set_takeWhileD)
    have "collapse_newlines (c # cs) = ?ns @ collapse_newlines ?rest"
      using True by simp
    then show ?thesis using hs_ok_newlines[OF ns] ih by (simp only:)
  next
    case False
    have ih: "hs_ok (collapse_newlines cs)" using 2 False by simp
    have hd: "cs \<noteq> [] \<Longrightarrow> hd (collapse_newlines cs) = hd cs" by (rule collapse_newlines_hd)
    have eq: "collapse_newlines (c # cs) = c # collapse_newlines cs" using False by simp
    have "hspace c \<longrightarrow> c = 32 \<and> (cs = [] \<or> \<not> hspace (hd cs))" using 2(3) by simp
    then have "hspace c \<longrightarrow> c = 32 \<and> (collapse_newlines cs = [] \<or> \<not> hspace (hd (collapse_newlines cs)))"
      using hd collapse_newlines_Nil by metis
    then show ?thesis using ih unfolding eq by simp
  qed
qed

lemma nl_ok_fix: "nl_ok s \<Longrightarrow> collapse_newlines s = s"
proof (induction s rule: collapse_newlines.induct)
  case 1 show ?case by simp
next
  case (2 c cs)
  let ?run = "takeWhile (\<lambda>x. x = 10) cs" and ?rest = "dropWhile (\<lambda>x. x = 10) cs"
  show ?case
  proof (cases "c = 10")
    case True
    have "nl_ok (?run @ ?rest)" using 2(3) by simp
    then have "nl_ok ?rest" using nl_ok_append by blast
    then have ih: "collapse_newlines ?rest = ?rest" using 2(1) True by simp
    have "\<not> 2 \<le> length ?run"
    proof
      assume "2 \<le> length ?run"
      then obtain a b r where r: "?run = a # b # r" by (cases ?run; cases "tl ?run") auto
      then have "a = 10 \<and> b = 10" by (metis list.set_intros(1,2) set_takeWhileD)
      moreover have "take 2 cs = take 2 (?run @ ?rest)" by simp
      ultimately have "take 2 cs = [10, 10]" using r by (metis append_Cons take_Suc_Cons take0 numeral_2_eq_2)
      with 2(3) True show False by simp
    qed
    with True ih show ?thesis by simp
  next
    case False
    with 2 show ?thesis by simp
  qed
qed

lemma nl_ok_newlines: "s = [] \<or> hd s \<noteq> 10 \<Longrightarrow> nl_ok s \<Longrightarrow> length ns \<le> 2 \<Longrightarrow> \<forall>x\<in>set ns. x = 10 \<Longrightarrow> nl_ok (ns @ s)"
  by (cases ns; cases "tl ns"; cases s) auto

lemma nl_ok_collapse: "nl_ok (collapse_newlines s)"
proof (induction s rule: collapse_newlines.induct)
  case 1 show ?case by simp
next
  case (2 c cs)
  let ?run = "takeWhile (\<lambda>x. x = 10) cs" and ?rest = "dropWhile (\<lambda>x. x = 10) cs"
  show ?case
  proof (cases "c = 10")
    case True
    have ih: "nl_ok (collapse_newlines ?rest)" using 2(1) True by simp
    have "?rest = [] \<or> hd ?rest \<noteq> 10" by (metis (mono_tags, lifting) hd_dropWhile)
    then have h: "collapse_newlines ?rest = [] \<or> hd (collapse_newlines ?rest) \<noteq> 10"
      by (metis collapse_newlines_Nil collapse_newlines_hd)
    let ?ns = "if 2 \<le> length ?run then [10, 10] else 10 # ?run"
    have "length ?ns \<le> 2" by auto
    moreover have "\<forall>x\<in>set ?ns. x = 10" by (auto dest: set_takeWhileD)
    ultimately have "nl_ok (?ns @ collapse_newlines ?rest)" using nl_ok_newlines h ih by blast
    then show ?thesis using True by simp
  next
    case False
    have "nl_ok (collapse_newlines cs)" using 2 False by simp
    then show ?thesis using False by simp
  qed
qed

lemma strip_idem: "strip (strip s) = strip s"
proof -
  let ?x = "dropWhile isspace s"
  let ?y = "dropWhile isspace (rev ?x)"
  have y: "?y = [] \<or> \<not> isspace (hd ?y)" by (metis hd_dropWhile)
  have "dropWhile isspace (rev ?y) = rev ?y"
  proof (cases "?y = []")
    case True
    then have "rev ?y = []" by (simp only: rev.simps)
    then show ?thesis by (simp only: dropWhile.simps)
  next
    case False
    then have "rev ?x = takeWhile isspace (rev ?x) @ ?y" by simp
    then have "?x = rev ?y @ rev (takeWhile isspace (rev ?x))" by (metis rev_append rev_rev_ident)
    then have "hd (rev ?y) = hd ?x" using False by (metis hd_append2 rev_is_Nil_conv)
    moreover have "?x \<noteq> []" using False by (metis dropWhile.simps(1) rev.simps(1))
    then have "\<not> isspace (hd ?x)" by (metis hd_dropWhile)
    ultimately show ?thesis using False by (cases "rev ?y") auto
  qed
  moreover have "dropWhile isspace ?y = ?y" using y by (cases ?y) auto
  ultimately show ?thesis by (simp add: strip_def)
qed

text \<open>
  Claim C8. Cleaning is idempotent: for every string \<open>t\<close>, cleaning the cleaned text
  gives the cleaned text again. Here \<open>clean_text\<close> is the source's composition: runs of
  whitespace other than the newline become one space, runs of three or more newlines become
  two, and whitespace is trimmed at both ends.
\<close>

theorem clean_text_idempotent: "clean_text (clean_text t) = clean_text t"
proof -
  let ?m = "collapse_newlines (collapse_hspace t)"
  obtain a b where ab: "?m = a @ clean_text t @ b"
    using strip_prefix_suffix[of ?m] by (auto simp: clean_text_def)
  have "hs_ok ?m" by (simp add: hs_ok_collapse hs_ok_collapse_newlines)
  then have "hs_ok (clean_text t)" using ab hs_ok_append by metis
  then have 1: "collapse_hspace (clean_text t) = clean_text t" by (rule hs_ok_fix)
  have "nl_ok ?m" by (rule nl_ok_collapse)
  then have "nl_ok (clean_text t)" using ab nl_ok_append by metis
  then have 2: "collapse_newlines (clean_text t) = clean_text t" by (rule nl_ok_fix)
  have 3: "strip (clean_text t) = clean_text t" by (simp add: clean_text_def strip_idem)
  show ?thesis
    unfolding clean_text_def[of "clean_text t"] by (simp only: 1 2 3)
qed

section \<open>Properties of \<open>truncate_text\<close>\<close>

lemma slice_to_take: "\<exists>n. slice_to xs k = take n xs"
  unfolding slice_to_def by (cases "0 \<le> k") auto

lemma estimate_tokens_nonneg: "0 \<le> estimate_tokens a"
proof -
  have "0 \<le> 2 * int (length a)" by simp
  then have "0 \<le> (2 * int (length a)) div 7" by (simp only: pos_imp_zdiv_nonneg_iff)
  then show ?thesis by (simp add: estimate_tokens_def)
qed

lemma estimate_tokens_mono:
  assumes "length a \<le> length b"
  shows "estimate_tokens a \<le> estimate_tokens b"
proof (cases "a = []")
  case True
  then show ?thesis using estimate_tokens_nonneg[of b] by (simp add: estimate_tokens_def)
next
  case False
  then have "b \<noteq> []" using assms by auto
  moreover have "2 * int (length a) div 7 \<le> 2 * int (length b) div 7"
    using assms by (intro zdiv_mono1) simp_all
  ultimately show ?thesis using False by (simp add: estimate_tokens_def)
qed

lemma estimate_tokens_take: "estimate_tokens (take n xs) \<le> estimate_tokens xs"
  by (rule estimate_tokens_mono) simp

lemma target_chars_bound: "0 \<le> m \<Longrightarrow> 2 * target_chars_of m \<le> 7 * m"
  by (simp add: target_chars_of_def)

lemma target_chars_nonneg: "0 \<le> m \<Longrightarrow> 0 \<le> target_chars_of m"
  by (simp add: target_chars_of_def)

lemma estimate_tokens_target:
  assumes "0 \<le> m" "int (length p) \<le> target_chars_of m"
  shows "estimate_tokens p \<le> m"
proof -
  have "2 * int (length p) \<le> 7 * m" using assms target_chars_bound[of m] by linarith
  then have "(2 * int (length p)) div 7 \<le> (7 * m) div 7" by (rule zdiv_mono1) simp
  then have "(2 * int (length p)) div 7 \<le> m" by simp
  then show ?thesis using assms(1) by (simp add: estimate_tokens_def)
qed

lemma length_slice_to: "0 \<le> k \<Longrightarrow> int (length (slice_to xs k)) \<le> k"
  by (simp add: slice_to_def)

lemma length_slice_to_le: "length (slice_to xs k) \<le> length xs"
proof -
  obtain n where "slice_to xs k = take n xs" using slice_to_take by blast
  then show ?thesis by simp
qed

lemma truncated_shape:
  assumes "m < estimate_tokens text"
  shows "\<exists>n. truncate_text text m = (take n text @ truncation_warning (estimate_tokens text) m, True)
            \<and> (0 \<le> m \<longrightarrow> int (length (take n text)) \<le> target_chars_of m)"
proof -
  let ?tc = "target_chars_of m"
  let ?t = "slice_to text ?tc"
  let ?ln = "rfind_cp ?t 10"
  let ?t' = "if 4 * ?tc < 5 * ?ln then slice_to ?t ?ln else ?t"
  have eq: "truncate_text text m = (?t' @ truncation_warning (estimate_tokens text) m, True)"
    using assms by (simp add: truncate_text_def Let_def)
  obtain n1 where n1: "?t = take n1 text" using slice_to_take by blast
  obtain n2 where n2: "slice_to ?t ?ln = take n2 ?t" using slice_to_take by blast
  have t': "?t' = take (if 4 * ?tc < 5 * ?ln then min n2 n1 else n1) text"
    using n1 n2 by (simp add: min.commute)
  have len: "0 \<le> m \<longrightarrow> int (length ?t') \<le> ?tc"
  proof
    assume m: "0 \<le> m"
    then have tc: "0 \<le> ?tc" by (rule target_chars_nonneg)
    then have a: "int (length ?t) \<le> ?tc" by (rule length_slice_to)
    have "length (slice_to ?t ?ln) \<le> length ?t" by (rule length_slice_to_le)
    then have "int (length (slice_to ?t ?ln)) \<le> ?tc" using a by linarith
    then show "int (length ?t') \<le> ?tc" using a by simp
  qed
  show ?thesis
    apply (rule exI[of _ "if 4 * ?tc < 5 * ?ln then min n2 n1 else n1"])
    using eq len unfolding t' by simp
qed

text \<open>
  Claim C4, as the code has it. Within the budget the text comes back unchanged with flag
  \<open>False\<close>. Over the budget the flag is \<open>True\<close> and the result is a prefix of the input
  followed by the truncation notice; the token estimate of that prefix (the result without
  the notice) does not exceed the estimate of the input, nor the budget when the budget is
  not negative.
\<close>

theorem truncate_text_spec:
  "(estimate_tokens text \<le> max_tokens \<longrightarrow> truncate_text text max_tokens = (text, False)) \<and>
   (max_tokens < estimate_tokens text \<longrightarrow>
      (\<exists>n. truncate_text text max_tokens =
              (take n text @ truncation_warning (estimate_tokens text) max_tokens, True) \<and>
            estimate_tokens (take n text) \<le> estimate_tokens text \<and>
            (0 \<le> max_tokens \<longrightarrow> estimate_tokens (take n text) \<le> max_tokens)))"
proof (intro conjI impI)
  assume "estimate_tokens text \<le> max_tokens"
  then show "truncate_text text max_tokens = (text, False)"
    by (simp add: truncate_text_def)
next
  assume "max_tokens < estimate_tokens text"
  from truncated_shape[OF this] obtain n where
    n: "truncate_text text max_tokens =
          (take n text @ truncation_warning (estimate_tokens text) max_tokens, True)"
       "0 \<le> max_tokens \<longrightarrow> int (length (take n text)) \<le> target_chars_of max_tokens"
    by blast
  have b: "0 \<le> max_tokens \<longrightarrow> estimate_tokens (take n text) \<le> max_tokens"
    using n(2) estimate_tokens_target by blast
  have c: "estimate_tokens (take n text) \<le> estimate_tokens text"
    by (rule estimate_tokens_take)
  show "\<exists>n. truncate_text text max_tokens =
              (take n text @ truncation_warning (estimate_tokens text) max_tokens, True) \<and>
            estimate_tokens (take n text) \<le> estimate_tokens text \<and>
            (0 \<le> max_tokens \<longrightarrow> estimate_tokens (take n text) \<le> max_tokens)"
    by (rule exI[of _ n]) (intro conjI n(1) b c)
qed

lemma length_digits_of_10: "length (str_int 10) = 2" "length (str_int 9) = 1"
  by (simp_all add: str_int_def digits_of.simps)

lemma length_truncation_warning:
  "length (truncation_warning a b) = 114 + length (str_int a) + length (str_int b)"
  by (simp add: truncation_warning_def)

lemma sample_first:
  "truncate_text (replicate 35 97) 9 = (replicate 31 97 @ truncation_warning 10 9, True)"
  by (simp add: truncate_text_def estimate_tokens_def target_chars_of_def slice_to_def rfind_cp_def)

lemma sample_estimate:
  "estimate_tokens (replicate 31 97 @ truncation_warning 10 9) = 42"
  by (simp add: estimate_tokens_def length_truncation_warning length_digits_of_10)

lemma sample_tokens: "estimate_tokens (replicate 35 97) = 10"
  by (simp add: estimate_tokens_def)

text \<open>
  The theorem at a text of 35 letters: within a budget of 10 tokens, and over a budget of 9.
\<close>

theorem truncate_text_spec_witness:
  "estimate_tokens (replicate 35 97) \<le> 10 \<and>
   truncate_text (replicate 35 97) 10 = (replicate 35 97, False) \<and>
   9 < estimate_tokens (replicate 35 97) \<and>
   (\<exists>n. truncate_text (replicate 35 97) 9 =
           (take n (replicate 35 97) @ truncation_warning (estimate_tokens (replicate 35 97)) 9, True) \<and>
         estimate_tokens (take n (replicate 35 97)) \<le> estimate_tokens (replicate 35 97) \<and>
         (0 \<le> (9::int) \<longrightarrow> estimate_tokens (take n (replicate 35 97)) \<le> 9))"
proof -
  have a: "estimate_tokens (replicate 35 97) \<le> 10" and b: "9 < estimate_tokens (replicate 35 97)"
    by (simp_all only: sample_tokens)
  show ?thesis
    using a b truncate_text_spec[of "replicate 35 97" 10] truncate_text_spec[of "replicate 35 97" 9]
    by blast
qed

text \<open>
  Claim C4 as stated fails: with the notice counted, the result can be longer than the input.
  A text of 35 letters is estimated at 10 tokens; at a budget of 9 the result is 31 letters
  and a notice of 117 code points, estimated at 42 tokens.
\<close>

theorem truncate_text_longer_counterexample:
  "9 < estimate_tokens (replicate 35 97) \<and>
   snd (truncate_text (replicate 35 97) 9) \<and>
   \<not> estimate_tokens (fst (truncate_text (replicate 35 97) 9)) \<le> estimate_tokens (replicate 35 97)"
  by (simp add: sample_first sample_estimate sample_tokens)

text \<open>
  Claim C5, as the code has it. Truncation is a function of its two arguments. Truncating
  the output \<open>t1\<close> of a first call again at the same budget returns \<open>(t1, False)\<close> exactly
  when the estimate of \<open>t1\<close> is within the budget, which is the case whenever the first
  call did not truncate.
\<close>

theorem retruncate_iff:
  "truncate_text text max_tokens = (t1, flag1) \<Longrightarrow>
     (truncate_text t1 max_tokens = (t1, False) \<longleftrightarrow> estimate_tokens t1 \<le> max_tokens) \<and>
     (\<not> flag1 \<longrightarrow> truncate_text t1 max_tokens = (t1, False))"
  by (auto simp: truncate_text_def Let_def split: if_splits)

text \<open>The theorem at the output of the 35-letter text truncated at 9 tokens.\<close>

theorem retruncate_iff_witness:
  "truncate_text (replicate 35 97) 9 = (replicate 31 97 @ truncation_warning 10 9, True) \<and>
   (truncate_text (replicate 31 97 @ truncation_warning 10 9) 9
       = (replicate 31 97 @ truncation_warning 10 9, False)
     \<longleftrightarrow> estimate_tokens (replicate 31 97 @ truncation_warning 10 9) \<le> 9)"
  using retruncate_iff[OF sample_first] sample_first by blast

text \<open>
  Claim C5 as stated fails: the truncated output of the 35-letter text at 9 tokens is
  estimated at 42 tokens, so a second call at the same budget truncates it again.
\<close>

theorem retruncate_counterexample:
  "truncate_text (fst (truncate_text (replicate 35 97) 9)) 9
     \<noteq> (fst (truncate_text (replicate 35 97) 9), False)"
proof -
  have "snd (truncate_text (replicate 31 97 @ truncation_warning 10 9) 9)"
    unfolding truncate_text_def Let_def sample_estimate by simp
  then show ?thesis unfolding sample_first fst_conv by (metis snd_conv)
qed

section \<open>Properties of the repair parser\<close>

subsection \<open>Numeric normalisation\<close>

lemmas str_defs = u_def strip_def isspace_def lower_def lower_cp_def
lemmas loads_defs = json_loads_def skip_ws_def json_ws_def starts_with_def scan_number_def
  number_int_len_def number_frac_len_def number_exp_len_def dict_of_def backslash_def
  decode_uXXXX_def hex_value_def decode_error_def



















subsection \<open>Missing keys\<close>

lemma extract_blank: "strip raw = [] \<Longrightarrow> extract_json_block raw = Inl (ExtractionError msg_no_json)"
  by (simp add: extract_json_block_def fence_match_def fence_def)

lemma distinct_required_keys: "distinct required_keys"
  by (simp add: required_keys_def u_def)

text \<open>
  Claim C2. When the JSON text extracted from the response decodes to an object that lacks
  at least one of \<open>balance_start\<close>, \<open>balance_end\<close> and \<open>income_current\<close>, the parser
  fails with an \<open>ExtractionError\<close> whose message is the fixed prefix followed by the
  missing keys, each once, in sorted order, separated by a comma and a space, and by
  nothing else.
\<close>

theorem missing_keys_reported:
  assumes "extract_json_block raw = Inr js"
    and "loads js = Inr (JObj obj)"
    and "\<not> set required_keys \<subseteq> fst ` set obj"
  shows "\<exists>ks. parse_llm_json loads raw
               = Inl (ExtractionError (msg_missing @ join (u '', '') ks)) \<and>
              sorted ks \<and> distinct ks \<and> set ks = set required_keys - fst ` set obj"
proof -
  let ?missing = "filter (\<lambda>k. k \<notin> set (map fst obj)) required_keys"
  have nb: "strip raw \<noteq> []" "raw \<noteq> []"
    using assms(1) extract_blank[of raw] by (auto simp: strip_def)
  have ne: "?missing \<noteq> []"
    using assms(3) by (auto simp: filter_empty_conv)
  have "parse_llm_json loads raw
          = Inl (ExtractionError (msg_missing @ join (u '', '') (sort ?missing)))"
    using nb ne assms(1,2) by (simp add: parse_llm_json_def Let_def)
  moreover have "sorted (sort ?missing)" by simp
  moreover have "distinct (sort ?missing)" using distinct_required_keys by simp
  moreover have "set (sort ?missing) = set required_keys - fst ` set obj" by auto
  ultimately show ?thesis by blast
qed


text \<open>
  The theorem at an object with \<open>balance_start\<close> only, decoded by the model of
  \<open>json.loads\<close>: the message names \<open>balance_end\<close> and \<open>income_current\<close>.
\<close>

theorem missing_keys_reported_witness:
  "extract_json_block (u ''{\"balance_start\": {}}'') = Inr (u ''{\"balance_start\": {}}'') \<and>
   json_loads (u ''{\"balance_start\": {}}'') = Inr (JObj [(u ''balance_start'', JObj [])]) \<and>
   parse_llm_json json_loads (u ''{\"balance_start\": {}}'')
     = Inl (ExtractionError (msg_missing @ u ''balance_end, income_current''))"
proof -
  let ?raw = "u ''{\"balance_start\": {}}''"
  let ?obj = "[(u ''balance_start'', JObj [])]"
  have e: "extract_json_block ?raw = Inr ?raw"
    by (simp add: extract_json_block_def fence_match_def fence_def starts_with_def str_defs)
  have l: "json_loads ?raw = Inr (JObj ?obj)"
    by (simp add: str_defs loads_defs is_digit_def)
  have m: "\<not> set required_keys \<subseteq> fst ` set ?obj"
    by (simp add: required_keys_def u_def)
  from missing_keys_reported[where loads = json_loads, OF e l m] obtain ks where
    p: "parse_llm_json json_loads ?raw = Inl (ExtractionError (msg_missing @ join (u '', '') ks))"
    and ks: "sorted ks" "distinct ks" "set ks = set required_keys - fst ` set ?obj"
    by blast
  have "set ks = set [u ''balance_end'', u ''income_current'']"
    unfolding ks(3) by (simp add: required_keys_def u_def)
  moreover have "sorted [u ''balance_end'', u ''income_current'']"
    by (simp add: u_def)
  moreover have "distinct [u ''balance_end'', u ''income_current'']"
    by (simp add: u_def)
  ultimately have "ks = [u ''balance_end'', u ''income_current'']"
    using ks(1,2) by (metis sorted_distinct_set_unique)
  then have "join (u '', '') ks = u ''balance_end, income_current''"
    by (simp add: u_def)
  then show ?thesis using e l p by simp
qed

subsection \<open>Fences and wrapped objects\<close>

lemma has_fence_Nil: "\<not> has_fence []"
  by (simp add: has_fence_def fence_def)

lemma has_fence_Cons: "has_fence (c # cs) \<longleftrightarrow> starts_with fence (c # cs) \<or> has_fence cs"
  by (simp add: has_fence_def)

lemma fence_append: "fence @ ys = 96 # 96 # 96 # ys"
  by (simp add: fence_def)

lemma starts_with_fence:
  "starts_with fence s \<longleftrightarrow> (\<exists>r. s = 96 # 96 # 96 # r)"
proof
  assume "starts_with fence s"
  then have "take (length fence) s = fence" by (simp add: starts_with_def)
  then have "s = fence @ drop (length fence) s" by (metis append_take_drop_id)
  then have "s = 96 # 96 # 96 # drop (length fence) s" by (simp only: fence_append)
  then show "\<exists>r. s = 96 # 96 # 96 # r" by blast
next
  assume "\<exists>r. s = 96 # 96 # 96 # r"
  then show "starts_with fence s" by (auto simp: starts_with_def fence_def)
qed

lemma no_fence_append:
  assumes "\<not> has_fence a" "\<not> has_fence b"
    and "a = [] \<or> last a \<noteq> 96 \<or> b = [] \<or> hd b \<noteq> 96"
  shows "\<not> has_fence (a @ b)"
  using assms
proof (induction a)
  case Nil
  then show ?case by simp
next
  case (Cons x a)
  have ih: "\<not> has_fence (a @ b)"
    using Cons by (cases "a = []") (auto simp: has_fence_Cons)
  have "\<not> starts_with fence (x # a @ b)"
  proof
    assume "starts_with fence (x # a @ b)"
    then obtain r where r: "x # a @ b = 96 # 96 # 96 # r" using starts_with_fence by blast
    have nf: "\<not> starts_with fence (x # a)" using Cons.prems(1) by (simp add: has_fence_Cons)
    show False
    proof (cases a)
      case Nil
      then show ?thesis using r Cons.prems(3) by (cases b) auto
    next
      case (Cons y a')
      show ?thesis
      proof (cases a')
        case Nil
        then show ?thesis using r Cons.prems(3) \<open>a = y # a'\<close> by (cases b) auto
      next
        case (Cons z a'')
        then show ?thesis using r nf \<open>a = y # a'\<close> by (auto simp: starts_with_fence)
      qed
    qed
  qed
  then show ?case using ih by (simp add: has_fence_Cons)
qed

lemma has_fence_suffix: "has_fence b \<Longrightarrow> has_fence (a @ b)"
  by (induction a) (auto simp: has_fence_Cons)

lemma has_fence_prefix: "has_fence a \<Longrightarrow> has_fence (a @ b)"
proof (induction a)
  case Nil
  then show ?case by (simp add: has_fence_Nil)
next
  case (Cons x a)
  then show ?case by (auto simp: has_fence_Cons starts_with_fence)
qed

lemma no_fence_space: "list_all isspace ws \<Longrightarrow> \<not> has_fence ws"
  by (induction ws) (auto simp: has_fence_Nil has_fence_Cons starts_with_fence isspace_def)

lemma find_fence_first:
  "\<not> has_fence (xs @ [96, 96]) \<Longrightarrow> find_sub fence (xs @ fence @ ys) = Some (length xs)"
proof (induction xs)
  case Nil
  then show ?case by (cases ys) (simp_all add: starts_with_def fence_def)
next
  case (Cons x xs)
  have nf: "\<not> starts_with fence (x # xs @ [96, 96])" and rest: "\<not> has_fence (xs @ [96, 96])"
    using Cons.prems by (simp_all add: has_fence_Cons)
  have "\<not> starts_with fence (x # xs @ fence @ ys)"
  proof (cases xs)
    case Nil
    then show ?thesis using nf by (auto simp: starts_with_fence fence_append)
  next
    case (Cons y xs')
    then show ?thesis using nf by (cases xs') (auto simp: starts_with_fence fence_append)
  qed
  then show ?case using Cons.IH[OF rest] by simp
qed

lemma dropWhile_append_keep:
  "ys \<noteq> [] \<Longrightarrow> \<not> P (hd ys) \<Longrightarrow> dropWhile P (xs @ ys) = dropWhile P xs @ ys"
  by (induction xs) (auto simp: dropWhile_eq_self_iff)

lemma strip_around:
  assumes "J \<noteq> []" "\<not> isspace (hd J)" "\<not> isspace (last J)"
  shows "strip (pre @ J @ post) = dropWhile isspace pre @ J @ rev (dropWhile isspace (rev post))"
proof -
  have a: "dropWhile isspace (pre @ J @ post) = dropWhile isspace pre @ J @ post"
    using assms by (intro dropWhile_append_keep) (simp_all add: hd_append)
  have "rev (dropWhile isspace pre @ J @ post) = rev post @ (rev J @ rev (dropWhile isspace pre))"
    by simp
  moreover have "dropWhile isspace (rev post @ (rev J @ rev (dropWhile isspace pre)))
      = dropWhile isspace (rev post) @ (rev J @ rev (dropWhile isspace pre))"
    using assms by (intro dropWhile_append_keep) (simp_all add: hd_append hd_rev)
  ultimately show ?thesis unfolding strip_def a by simp
qed

lemma brace_scan_append:
  "brace_scan s d n = Some m \<Longrightarrow> brace_scan (s @ t) d n = Some m"
  by (induction s d n rule: brace_scan.induct) (auto split: if_splits)

lemma brace_scan_last:
  "brace_scan s d n = Some (n + length s) \<Longrightarrow> s \<noteq> [] \<and> last s = 125"
proof (induction s d n rule: brace_scan.induct)
  case (1 depth n)
  then show ?case by simp
next
  case (2 c cs depth n)
  show ?case
  proof (cases "c = 125 \<and> depth - 1 = 0")
    case True
    then have "cs = []" using 2(4) by (auto split: if_splits)
    then show ?thesis using True by simp
  next
    case False
    then obtain d' where "brace_scan cs d' (n + 1) = Some ((n + 1) + length cs)"
      and ih: "brace_scan cs d' (n + 1) = Some ((n + 1) + length cs) \<Longrightarrow> cs \<noteq> [] \<and> last cs = 125"
      using 2 by (auto split: if_splits)
    then show ?thesis by auto
  qed
qed

lemma not_space_brace: "\<not> isspace 123" "\<not> isspace 125" "\<not> isspace 96"
  by (simp_all add: isspace_def)

lemma extract_prose:
  assumes J: "hd J = 123" "brace_scan J 0 0 = Some (length J)" "\<not> has_fence J"
    and pre: "123 \<notin> set pre" "\<not> has_fence pre"
    and post: "\<not> has_fence post"
  shows "extract_json_block (pre @ J @ post) = Inr J"
proof -
  let ?pre = "dropWhile isspace pre" and ?post = "rev (dropWhile isspace (rev post))"
  have Jl: "J \<noteq> []" "last J = 125"
    using brace_scan_last[of J 0 0] J(2) by simp_all
  have stripped: "strip (pre @ J @ post) = ?pre @ J @ ?post"
    using Jl J(1) by (intro strip_around) (simp_all add: not_space_brace)
  have "pre = takeWhile isspace pre @ ?pre" by simp
  then have nfpre: "\<not> has_fence ?pre" using pre(2) has_fence_suffix by metis
  have "rev post = takeWhile isspace (rev post) @ dropWhile isspace (rev post)" by simp
  then have "post = ?post @ rev (takeWhile isspace (rev post))"
    by (metis rev_append rev_rev_ident)
  then have nfpost: "\<not> has_fence ?post" using post has_fence_prefix by metis
  have nf1: "\<not> has_fence (J @ ?post)"
    by (rule no_fence_append[OF J(3) nfpost]) (simp add: Jl)
  have "\<not> has_fence (?pre @ J @ ?post)"
    by (rule no_fence_append[OF nfpre nf1]) (simp add: hd_append J(1) Jl(1))
  then have fm: "fence_match (?pre @ J @ ?post) = None"
    by (simp add: fence_match_def has_fence_def)
  have mem: "123 \<in> set (?pre @ J @ ?post)"
    using J(1) Jl(1) by (cases J) auto
  have "123 \<notin> set ?pre" using pre(1) by (metis set_dropWhileD)
  then have "dropWhile (\<lambda>c. c \<noteq> 123) ?pre = []" by (simp add: dropWhile_eq_Nil_conv) metis
  moreover have "dropWhile (\<lambda>c. c \<noteq> 123) (?pre @ (J @ ?post))
      = dropWhile (\<lambda>c. c \<noteq> 123) ?pre @ (J @ ?post)"
    using J(1) Jl(1) by (intro dropWhile_append_keep) (simp_all add: hd_append)
  ultimately have fb: "dropWhile (\<lambda>c. c \<noteq> 123) (?pre @ J @ ?post) = J @ ?post" by simp
  have bs: "brace_scan (J @ ?post) 0 0 = Some (length J)"
    using J(2) by (rule brace_scan_append)
  show ?thesis
    unfolding extract_json_block_def Let_def stripped fm using mem
    by (simp add: fb bs del: set_append)
qed

lemma extract_alone:
  assumes "hd J = 123" "brace_scan J 0 0 = Some (length J)" "\<not> has_fence J"
  shows "extract_json_block J = Inr J"
  using extract_prose[OF assms, of "[]" "[]"] by (simp add: has_fence_Nil)

lemma strip_space_after:
  assumes "J \<noteq> []" "\<not> isspace (hd J)" "\<not> isspace (last J)" "list_all isspace ws"
  shows "strip (J @ ws) = J"
proof -
  have "dropWhile isspace (rev ws) = []"
    using assms(4) by (simp add: dropWhile_eq_Nil_conv list_all_iff)
  then show ?thesis using strip_around[OF assms(1-3), of "[]" ws] by simp
qed

lemma extract_fenced:
  assumes J: "hd J = 123" "brace_scan J 0 0 = Some (length J)" "\<not> has_fence J"
    and tag: "tag = [] \<or> tag = u ''json''"
    and ws: "list_all isspace ws1" "list_all isspace ws2"
  shows "extract_json_block (fence @ tag @ ws1 @ J @ ws2 @ fence) = Inr J"
proof -
  let ?R = "fence @ tag @ ws1 @ J @ ws2 @ fence"
  have Jl: "J \<noteq> []" "last J = 125"
    using brace_scan_last[of J 0 0] J(2) by simp_all
  have Jh: "\<not> isspace (hd J)" "\<not> isspace (last J)"
    using J(1) Jl(2) by (simp_all add: not_space_brace)
  have "strip ([] @ ?R @ []) = dropWhile isspace [] @ ?R @ rev (dropWhile isspace (rev []))"
    by (intro strip_around) (simp_all add: fence_def not_space_brace)
  then have stripped: "strip ?R = ?R" by simp
  have first: "find_sub fence ?R = Some 0"
    by (simp add: fence_append starts_with_def fence_def)
  have after: "drop (0 + 3) ?R = tag @ ws1 @ J @ ws2 @ fence"
    by (simp add: fence_def)
  have nj: "\<not> starts_with (u ''json'') (ws1 @ J @ ws2 @ fence)"
  proof (cases ws1)
    case Nil
    then show ?thesis using J(1) Jl(1) by (cases J) (auto simp: starts_with_def u_def)
  next
    case (Cons w ws)
    then have "isspace w" using ws(1) by simp
    then have "w \<noteq> 106" by (auto simp: isspace_def)
    then show ?thesis using Cons by (auto simp: starts_with_def u_def)
  qed
  have untag: "(if starts_with (u ''json'') (tag @ ws1 @ J @ ws2 @ fence)
                then drop 4 (tag @ ws1 @ J @ ws2 @ fence) else tag @ ws1 @ J @ ws2 @ fence)
               = ws1 @ J @ ws2 @ fence"
    using tag
  proof
    assume "tag = []"
    then show ?thesis using nj by simp
  next
    assume "tag = u ''json''"
    then show ?thesis by (simp add: starts_with_def u_def)
  qed
  have "dropWhile isspace ws1 = []"
    using ws(1) by (simp add: dropWhile_eq_Nil_conv list_all_iff)
  moreover have "dropWhile isspace (ws1 @ (J @ ws2 @ fence)) = dropWhile isspace ws1 @ (J @ ws2 @ fence)"
    using Jl(1) Jh(1) by (intro dropWhile_append_keep) (simp_all add: hd_append)
  ultimately have body: "dropWhile isspace (ws1 @ J @ ws2 @ fence) = J @ ws2 @ fence" by simp
  have nfw: "\<not> has_fence ws2" using ws(2) by (rule no_fence_space)
  have nf2: "\<not> has_fence [96, 96]"
    by (simp add: has_fence_Cons has_fence_Nil starts_with_fence)
  have lw: "ws2 = [] \<or> last ws2 \<noteq> 96"
  proof (cases "ws2 = []")
    case True then show ?thesis by simp
  next
    case False
    then have "last ws2 \<in> set ws2" by simp
    then have "isspace (last ws2)" using ws(2) by (simp add: list_all_iff)
    then show ?thesis using not_space_brace(3) by metis
  qed
  have nf3: "\<not> has_fence (ws2 @ [96, 96])"
    by (rule no_fence_append[OF nfw nf2]) (use lw in blast)
  have "\<not> has_fence (J @ (ws2 @ [96, 96]))"
    by (rule no_fence_append[OF J(3) nf3]) (simp add: Jl)
  then have "find_sub fence ((J @ ws2) @ fence @ []) = Some (length (J @ ws2))"
    by (intro find_fence_first) simp
  then have second: "find_sub fence (J @ ws2 @ fence) = Some (length J + length ws2)" by simp
  have g: "take (length J + length ws2) (J @ ws2 @ fence) = J @ ws2" by simp
  have s1: "strip (J @ ws2) = J" using Jl(1) Jh ws(2) by (rule strip_space_after)
  have s2: "last (J @ ws2) = 10 \<Longrightarrow> strip (butlast (J @ ws2)) = J"
  proof -
    assume l: "last (J @ ws2) = 10"
    then have "ws2 \<noteq> []" using Jl by (cases "ws2 = []") auto
    then have "butlast (J @ ws2) = J @ butlast ws2" by (simp add: butlast_append)
    moreover have "list_all isspace (butlast ws2)"
      using ws(2) by (auto simp: list_all_iff dest: in_set_butlastD)
    ultimately show ?thesis using strip_space_after[OF Jl(1) Jh] by simp
  qed
  have fm: "fence_match ?R = Some (if J @ ws2 \<noteq> [] \<and> last (J @ ws2) = 10 then butlast (J @ ws2) else J @ ws2)"
    unfolding fence_match_def first option.case Let_def after untag body second g ..
  show ?thesis
    unfolding extract_json_block_def Let_def stripped fm using s1 s2 by simp
qed

lemma parse_cong:
  assumes "extract_json_block a = Inr js" "extract_json_block b = Inr js"
  shows "parse_llm_json loads a = parse_llm_json loads b"
proof -
  have "strip a \<noteq> []" "strip b \<noteq> []" using assms extract_blank by force+
  then have "a \<noteq> []" "b \<noteq> []" by (auto simp: strip_def)
  then show ?thesis using assms \<open>strip a \<noteq> []\<close> \<open>strip b \<noteq> []\<close>
    by (simp add: parse_llm_json_def)
qed

text \<open>
  Claim C3, as the code has it. Let \<open>J\<close> start with an opening brace, let its brace depth,
  counted character by character whether inside a string literal or not, return to zero
  for the first time at its last character, and let it hold no fence. Then a response that
  wraps \<open>J\<close> in a fence, with or without the tag \<open>json\<close> and with any whitespace between
  the fences and \<open>J\<close>, and a response that puts \<open>J\<close> between prose (no opening brace and no
  fence before it, no fence after it) both parse to what \<open>J\<close> alone parses to, whatever
  the decoder.
\<close>

theorem wrapped_object_parses_alike:
  assumes "hd J = 123" "brace_scan J 0 0 = Some (length J)" "\<not> has_fence J"
    and "tag = [] \<or> tag = u ''json''" "list_all isspace ws1" "list_all isspace ws2"
    and "123 \<notin> set pre" "\<not> has_fence pre" "\<not> has_fence post"
  shows "parse_llm_json loads (fence @ tag @ ws1 @ J @ ws2 @ fence) = parse_llm_json loads J \<and>
         parse_llm_json loads (pre @ J @ post) = parse_llm_json loads J"
proof -
  have a: "extract_json_block J = Inr J" using assms(1-3) by (rule extract_alone)
  have f: "extract_json_block (fence @ tag @ ws1 @ J @ ws2 @ fence) = Inr J"
    using assms(1-6) by (rule extract_fenced)
  have p: "extract_json_block (pre @ J @ post) = Inr J"
    using assms(1-3,7-9) by (rule extract_prose)
  show ?thesis using parse_cong[OF f a] parse_cong[OF p a] by simp
qed

lemmas extract_defs = extract_json_block_def fence_match_def fence_def has_fence_def

text \<open>The theorem at an object with three empty sections.\<close>

theorem wrapped_object_parses_alike_witness:
  "hd (u ''{\"balance_start\":{},\"balance_end\":{},\"income_current\":{}}'') = 123 \<and>
   brace_scan (u ''{\"balance_start\":{},\"balance_end\":{},\"income_current\":{}}'') 0 0
     = Some (length (u ''{\"balance_start\":{},\"balance_end\":{},\"income_current\":{}}'')) \<and>
   parse_llm_json json_loads
     (fence @ u ''json'' @ [10]
        @ u ''{\"balance_start\":{},\"balance_end\":{},\"income_current\":{}}'' @ [10] @ fence)
     = parse_llm_json json_loads
         (u ''{\"balance_start\":{},\"balance_end\":{},\"income_current\":{}}'') \<and>
   parse_llm_json json_loads
     (u ''Here it is: ''
        @ u ''{\"balance_start\":{},\"balance_end\":{},\"income_current\":{}}'' @ u '' Done.'')
     = parse_llm_json json_loads
         (u ''{\"balance_start\":{},\"balance_end\":{},\"income_current\":{}}'')"
proof -
  let ?J = "u ''{\"balance_start\":{},\"balance_end\":{},\"income_current\":{}}''"
  have 1: "hd ?J = 123" by (simp add: u_def)
  have 2: "brace_scan ?J 0 0 = Some (length ?J)" by (simp add: u_def)
  have 3: "\<not> has_fence ?J" by (simp add: has_fence_def fence_def starts_with_def u_def)
  have 4: "u ''json'' = [] \<or> u ''json'' = u ''json''" by simp
  have 5: "list_all isspace [10]" by (simp add: isspace_def)
  have 6: "123 \<notin> set (u ''Here it is: '')" by (simp add: u_def)
  have 7: "\<not> has_fence (u ''Here it is: '')"
    by (simp add: has_fence_def fence_def starts_with_def u_def)
  have 8: "\<not> has_fence (u '' Done.'')"
    by (simp add: has_fence_def fence_def starts_with_def u_def)
  show ?thesis
    using 1 2 wrapped_object_parses_alike[where loads = json_loads, OF 1 2 3 4 5 5 6 7 8]
    by blast
qed

text \<open>
  Claim C3 as stated fails for an object with a brace inside a string literal. Alone, the
  scan never returns to depth zero and the whole text is decoded; between prose, the text
  from the first brace to the end of the response is decoded, trailing prose included, and
  the decoder rejects it.
\<close>

lemma brace_in_string_alone:
  "parse_llm_json json_loads
     (u ''{\"balance_start\":{},\"balance_end\":{},\"income_current\":{},\"company_name\":\"{\"}'')
   = Inr [(u ''balance_start'', Section []),
          (u ''balance_end'', Section []),
          (u ''income_current'', Section []),
          (u ''company_name'', Raw (JStr (u ''{''))),
          (u ''period'', Raw (JStr default_period))]"
  by (simp add: parse_llm_json_def extract_json_block_def fence_match_def fence_def
      required_keys_def setdefault_def normalize_section_def
      str_defs loads_defs is_digit_def)

lemma brace_in_string_prose:
  "parse_llm_json json_loads
     (u ''Here it is: ''
      @ u ''{\"balance_start\":{},\"balance_end\":{},\"income_current\":{},\"company_name\":\"{\"}''
      @ u '' Done.'')
   = Inl (ExtractionError (msg_parse @ decode_error))"
  by (simp add: parse_llm_json_def extract_json_block_def fence_match_def fence_def
      str_defs loads_defs is_digit_def)

theorem wrapped_object_counterexample:
  "parse_llm_json json_loads
     (u ''Here it is: ''
      @ u ''{\"balance_start\":{},\"balance_end\":{},\"income_current\":{},\"company_name\":\"{\"}''
      @ u '' Done.'')
   \<noteq> parse_llm_json json_loads
     (u ''{\"balance_start\":{},\"balance_end\":{},\"income_current\":{},\"company_name\":\"{\"}'')"
  unfolding brace_in_string_alone brace_in_string_prose by simp

section \<open>Properties of the PDF extraction\<close>

lemma enumerate_Cons: "List.enumerate n (p # ps) = (n, p) # List.enumerate (Suc n) ps"
  by simp

lemma pdf_pages_calls_prefix:
  "pdf_pages ocr_func ps n ft k calls = (r, calls') \<Longrightarrow>
   \<exists>m. calls' = calls @ take m (expected_calls n ps)"
proof (induction ps arbitrary: n ft k calls)
  case Nil
  then show ?case by (simp add: expected_calls_def)
next
  case (Cons p ps)
  show ?case
  proof (cases "needs_ocr p")
    case False
    then have "pdf_pages ocr_func ps (n + 1) (ft @ [page_header (n + 1) @ get_text p]) k calls
                 = (r, calls')"
      using Cons.prems by (simp add: needs_ocr_def MIN_TEXT_LENGTH_def)
    from Cons.IH[OF this] obtain m where "calls' = calls @ take m (expected_calls (n + 1) ps)"
      by blast
    then show ?thesis using False by (auto simp: expected_calls_def)
  next
    case True
    let ?img = "get_pixmap p 300"
    have e: "expected_calls n (p # ps) = (n, ?img) # expected_calls (Suc n) ps"
      using True by (simp add: expected_calls_def)
    show ?thesis
    proof (cases "ocr_func ?img")
      case (Inl err)
      then have "calls' = calls @ [(n, ?img)]"
        using Cons.prems True by (simp add: needs_ocr_def MIN_TEXT_LENGTH_def)
      then have "calls' = calls @ take 1 (expected_calls n (p # ps))" using e by simp
      then show ?thesis by blast
    next
      case (Inr t)
      then have "pdf_pages ocr_func ps (n + 1) (ft @ [page_header (n + 1) @ t]) (k + 1)
                   (calls @ [(n, ?img)]) = (r, calls')"
        using Cons.prems True by (simp add: needs_ocr_def MIN_TEXT_LENGTH_def)
      from Cons.IH[OF this] obtain m where
        "calls' = (calls @ [(n, ?img)]) @ take m (expected_calls (n + 1) ps)" by blast
      then have "calls' = calls @ take (Suc m) (expected_calls n (p # ps))" using e by simp
      then show ?thesis by blast
    qed
  qed
qed

lemma pdf_pages_success:
  "pdf_pages ocr_func ps n ft k calls = (Inr (ft', k'), calls') \<Longrightarrow>
   calls' = calls @ expected_calls n ps \<and>
   ft' = ft @ expected_parts ocr_func n ps \<and>
   k' = k + length (filter needs_ocr ps) \<and>
   list_all (\<lambda>p. needs_ocr p \<longrightarrow> \<not> isl (ocr_func (get_pixmap p 300))) ps"
proof (induction ps arbitrary: n ft k calls)
  case Nil
  then show ?case by (simp add: expected_calls_def expected_parts_def)
next
  case (Cons p ps)
  show ?case
  proof (cases "needs_ocr p")
    case False
    then have "pdf_pages ocr_func ps (n + 1) (ft @ [page_header (n + 1) @ get_text p]) k calls
                 = (Inr (ft', k'), calls')"
      using Cons.prems by (simp add: needs_ocr_def MIN_TEXT_LENGTH_def)
    from Cons.IH[OF this] show ?thesis
      using False by (simp add: expected_calls_def expected_parts_def page_text_def)
  next
    case True
    let ?img = "get_pixmap p 300"
    show ?thesis
    proof (cases "ocr_func ?img")
      case (Inl err)
      then show ?thesis using Cons.prems True by (simp add: needs_ocr_def MIN_TEXT_LENGTH_def)
    next
      case (Inr t)
      then have "pdf_pages ocr_func ps (n + 1) (ft @ [page_header (n + 1) @ t]) (k + 1)
                   (calls @ [(n, ?img)]) = (Inr (ft', k'), calls')"
        using Cons.prems True by (simp add: needs_ocr_def MIN_TEXT_LENGTH_def)
      from Cons.IH[OF this] show ?thesis
        using True Inr by (simp add: expected_calls_def expected_parts_def page_text_def)
    qed
  qed
qed

lemma expected_calls_fst:
  "map fst (expected_calls n doc) = map fst (filter (\<lambda>ip. needs_ocr (snd ip)) (List.enumerate n doc))"
  by (simp add: expected_calls_def comp_def)

lemma distinct_expected_calls: "distinct (map fst (expected_calls n doc))"
  unfolding expected_calls_fst by (rule distinct_map_filter) (simp add: map_fst_enumerate)

lemma expected_calls_mem:
  "i \<in> set (map fst (expected_calls 0 doc)) \<longleftrightarrow> i < length doc \<and> needs_ocr (doc ! i)"
proof -
  have "i \<in> set (map fst (expected_calls 0 doc))
        \<longleftrightarrow> (\<exists>p. (i, p) \<in> set (List.enumerate 0 doc) \<and> needs_ocr p)"
    unfolding expected_calls_fst by force
  also have "\<dots> \<longleftrightarrow> i < length doc \<and> needs_ocr (doc ! i)"
    by (auto simp: in_set_enumerate_eq)
  finally show ?thesis .
qed

lemma count_list_distinct: "distinct xs \<Longrightarrow> count_list xs x = (if x \<in> set xs then 1 else 0)"
  by (induction xs) auto

lemma count_expected_calls:
  assumes "i < length doc"
  shows "count_list (map fst (expected_calls 0 doc)) i = (if needs_ocr (doc ! i) then 1 else 0)"
  using count_list_distinct[OF distinct_expected_calls[of 0 doc], of i] expected_calls_mem[of i doc] assms
  by simp

text \<open>
  Claim C6. For an opened document, the OCR function is called for pages in page order,
  never for a page whose trimmed native text has 50 characters or more and at most once
  for a page (the calls made are an initial part of the calls expected). When the
  extraction returns a text, the OCR function has been called exactly once for every page
  whose trimmed native text is shorter than 50 characters, on the rendering of that page
  at 300 DPI, and not at all for the other pages; the text of such a page is what the OCR
  function returned, the text of any other page is its native text; and the result is the
  pages' texts, each under its header \<open>--- Page n ---\<close>, joined by a blank line.
\<close>

theorem pdf_ocr_fallback:
  assumes "open_doc file_bytes = Inr doc"
  shows "(\<exists>m. snd (extract_text_from_pdf open_doc ocr_func file_bytes) = take m (expected_calls 0 doc)) \<and>
         (extract_text_from_pdf open_doc ocr_func file_bytes = (Inr out, calls) \<longrightarrow>
            calls = expected_calls 0 doc \<and>
            (\<forall>i<length doc. count_list (map fst calls) i = (if needs_ocr (doc ! i) then 1 else 0)) \<and>
            list_all (\<lambda>p. needs_ocr p \<longrightarrow> \<not> isl (ocr_func (get_pixmap p 300))) doc \<and>
            out = join [10, 10] (expected_parts ocr_func 0 doc))"
proof (intro conjI impI)
  obtain r cs where p: "pdf_pages ocr_func doc 0 [] 0 [] = (r, cs)" by force
  from pdf_pages_calls_prefix[OF p] obtain m where m: "cs = take m (expected_calls 0 doc)"
    by auto
  have "snd (extract_text_from_pdf open_doc ocr_func file_bytes) = cs"
    using assms p by (auto simp: extract_text_from_pdf_def split: sum.splits prod.splits)
  then show "\<exists>m. snd (extract_text_from_pdf open_doc ocr_func file_bytes) = take m (expected_calls 0 doc)"
    using m by blast
next
  assume a: "extract_text_from_pdf open_doc ocr_func file_bytes = (Inr out, calls)"
  then obtain ft k where p: "pdf_pages ocr_func doc 0 [] 0 [] = (Inr (ft, k), calls)"
    and o: "out = join [10, 10] ft"
    using assms by (auto simp: extract_text_from_pdf_def split: sum.splits prod.splits)
  from pdf_pages_success[OF p] have
    c: "calls = expected_calls 0 doc" and f: "ft = expected_parts ocr_func 0 doc" and
    l: "list_all (\<lambda>p. needs_ocr p \<longrightarrow> \<not> isl (ocr_func (get_pixmap p 300))) doc"
    by simp_all
  show "calls = expected_calls 0 doc" by (rule c)
  show "\<forall>i<length doc. count_list (map fst calls) i = (if needs_ocr (doc ! i) then 1 else 0)"
    unfolding c using count_expected_calls by blast
  show "list_all (\<lambda>p. needs_ocr p \<longrightarrow> \<not> isl (ocr_func (get_pixmap p 300))) doc" by (rule l)
  show "out = join [10, 10] (expected_parts ocr_func 0 doc)" using o f by simp
qed

lemmas pdf_defs = extract_text_from_pdf_def MIN_TEXT_LENGTH_def page_header_def str_int_def
  digits_of.simps needs_ocr_def expected_calls_def expected_parts_def page_text_def

text \<open>
  The theorem at a document of two pages, the first with 54 characters of native text, the
  second a scan.
\<close>

theorem pdf_ocr_fallback_witness:
  "extract_text_from_pdf
     (\<lambda>b. Inr [\<lparr>get_text = u ''Balance sheet as of 31 December, thousands of hryvnias'',
                get_pixmap = (\<lambda>dpi. [1, dpi])\<rparr>,
               \<lparr>get_text = u ''  page 2 '', get_pixmap = (\<lambda>dpi. [2, dpi])\<rparr>]
            :: unit + page list)
     (\<lambda>img. Inr (u ''scanned text'')) []
   = (Inr (u ''--- Page 1 ---'' @ [10]
             @ u ''Balance sheet as of 31 December, thousands of hryvnias'' @ [10, 10]
             @ u ''--- Page 2 ---'' @ [10] @ u ''scanned text''),
      [(1, [2, 300])]) \<and>
   expected_calls 0
     [\<lparr>get_text = u ''Balance sheet as of 31 December, thousands of hryvnias'',
       get_pixmap = (\<lambda>dpi. [1, dpi])\<rparr>,
      \<lparr>get_text = u ''  page 2 '', get_pixmap = (\<lambda>dpi. [2, dpi])\<rparr>]
   = [(1, [2, 300])]"
proof -
  let ?doc = "[\<lparr>get_text = u ''Balance sheet as of 31 December, thousands of hryvnias'',
                get_pixmap = (\<lambda>dpi. [1, dpi])\<rparr>,
               \<lparr>get_text = u ''  page 2 '', get_pixmap = (\<lambda>dpi. [2, dpi])\<rparr>]"
  let ?open = "\<lambda>b::bytes. (Inr ?doc :: unit + page list)"
  let ?ocr = "\<lambda>img::bytes. (Inr (u ''scanned text'') :: unit + ustring)"
  let ?out = "u ''--- Page 1 ---'' @ [10]
             @ u ''Balance sheet as of 31 December, thousands of hryvnias'' @ [10, 10]
             @ u ''--- Page 2 ---'' @ [10] @ u ''scanned text''"
  have o: "?open [] = Inr ?doc" by simp
  have r: "extract_text_from_pdf ?open ?ocr [] = (Inr ?out, [(1, [2, 300])])"
    by (simp add: pdf_defs u_def strip_def isspace_def)
  from pdf_ocr_fallback[of ?open "[]" ?doc ?ocr ?out "[(1, [2, 300])]", OF o] r
  have "[(1, [2, 300])] = expected_calls 0 ?doc" by blast
  then have e: "expected_calls 0 ?doc = [(1, [2, 300])]" by (rule sym)
  show ?thesis by (rule conjI[OF r e])
qed

section \<open>Properties of the pipeline\<close>

lemmas ext_defs = is_allowed_extension_def get_extension_def rfind_cp_def ALLOWED_EXTENSIONS_def
  lower_def lower_cp_def u_def

lemmas clean_defs = clean_text_def strip_def isspace_def hspace_def

subsection \<open>Reading\<close>

lemma read_files_trace:
  "read_files m fs i tot fd tr = (r, tr') \<Longrightarrow>
   \<exists>x. tr' = tr @ x \<and> (fs \<noteq> [] \<longrightarrow> x \<noteq> [] \<and> hd x = ReadFile i)"
proof (induction fs arbitrary: i tot fd tr)
  case Nil
  then show ?case by simp
next
  case (Cons f fs)
  show ?case
  proof (cases "m < tot + length (content f)")
    case True
    then have "tr' = tr @ [ReadFile i]" using Cons.prems by (auto simp: Let_def)
    then show ?thesis by simp
  next
    case False
    then have "read_files m fs (i + 1) (tot + length (content f))
        (fd @ [(case filename f of None \<Rightarrow> u ''unknown'' | Some n \<Rightarrow> n, content f)])
        (tr @ [ReadFile i]) = (r, tr')"
      using Cons.prems by (simp add: Let_def)
    from Cons.IH[OF this] obtain x where "tr' = (tr @ [ReadFile i]) @ x" by blast
    then show ?thesis by simp
  qed
qed


subsection \<open>The dictionary of extracted texts\<close>



lemma extract_files_trace:
  "snd (snd (extract_files ex fd ft failed tr)) = tr @ map (\<lambda>nb. ExtractText (fst nb)) fd"
proof (induction fd arbitrary: ft failed tr)
  case Nil
  then show ?case by simp
next
  case (Cons nb fd)
  obtain n b where nb: "nb = (n, b)" by (cases nb)
  show ?case unfolding nb
    by (cases "extract_text ex n b") (simp_all add: Cons.IH)
qed









lemma run_steps_trace: "\<exists>x. snd (run_steps cfg ct ui tr) = tr @ x"
  by (auto simp: run_steps_def Let_def split: sum.splits prod.splits py_exception.splits)


lemma reading_follows_validation:
  assumes "validate files = None"
  shows "\<exists>rest. snd (analyze_documents cfg files ui) = ReadFile 0 # rest"
proof -
  have ne: "files \<noteq> []" using assms by (auto simp: validate_def split: if_splits)
  obtain r tr1 where rf: "read_files (max_upload_size_mb cfg * 1024 * 1024) files 0 0 [] [] = (r, tr1)"
    by force
  from read_files_trace[OF rf] ne obtain x where x: "tr1 = ReadFile 0 # x"
    by (metis append_Nil list.collapse)
  show ?thesis
  proof (cases r)
    case (Inl s)
    then show ?thesis using assms rf x by (simp add: analyze_documents_def)
  next
    case (Inr fd)
    obtain ft failed tr2 where ef: "extract_files (extractors cfg) fd [] [] tr1 = (ft, failed, tr2)"
      by (metis prod_cases3)
    then have tr2: "tr2 = tr1 @ map (\<lambda>nb. ExtractText (fst nb)) fd"
      using extract_files_trace[of "extractors cfg" fd "[]" "[]" tr1] by simp
    show ?thesis
    proof (cases "ft = []")
      case True
      then show ?thesis using assms rf Inr ef x tr2 by (simp add: analyze_documents_def)
    next
      case False
      let ?ct = "combine_extracted_texts ft"
      let ?ct' = "fst (if max_total_tokens_estimate cfg < estimate_tokens ?ct
                       then truncate_text ?ct (max_total_tokens_estimate cfg) else (?ct, False))"
      obtain y where y: "snd (run_steps cfg ?ct' ui tr2) = tr2 @ y"
        using run_steps_trace by blast
      have "snd (analyze_documents cfg files ui) = snd (run_steps cfg ?ct' ui tr2)"
        using assms rf Inr ef False
        by (auto simp: analyze_documents_def Let_def split: prod.splits sum.splits)
      then show ?thesis using y x tr2 by simp
    qed
  qed
qed

subsection \<open>Validation\<close>

text \<open>
  Claim C7. A request with no file or with more than ten fails with status 400, and a
  request with one to ten files of which one has a name whose extension is not allowed
  fails with status 422; in both cases the handler has done nothing before it fails: no
  file has been read, no text extracted, no prompt loaded and no model call made. A request
  that passes both checks begins by reading its first file.
\<close>

theorem validation_precedes_everything:
  "(length files < 1 \<or> 10 < length files \<longrightarrow>
      analyze_documents cfg files user_instructions = (Inl (HTTPException 400), [])) \<and>
   (1 \<le> length files \<and> length files \<le> 10 \<and>
    list_ex (\<lambda>f. \<not> is_allowed_extension (case filename f of None \<Rightarrow> [] | Some n \<Rightarrow> n)) files
      \<longrightarrow> analyze_documents cfg files user_instructions = (Inl (HTTPException 422), [])) \<and>
   (1 \<le> length files \<and> length files \<le> 10 \<and>
    list_all (\<lambda>f. is_allowed_extension (case filename f of None \<Rightarrow> [] | Some n \<Rightarrow> n)) files
      \<longrightarrow> (\<exists>rest. snd (analyze_documents cfg files user_instructions) = ReadFile 0 # rest))"
proof (intro conjI impI)
  assume "length files < 1 \<or> 10 < length files"
  then show "analyze_documents cfg files user_instructions = (Inl (HTTPException 400), [])"
    by (simp add: analyze_documents_def validate_def MAX_FILES_def)
next
  assume "1 \<le> length files \<and> length files \<le> 10 \<and>
    list_ex (\<lambda>f. \<not> is_allowed_extension (case filename f of None \<Rightarrow> [] | Some n \<Rightarrow> n)) files"
  then show "analyze_documents cfg files user_instructions = (Inl (HTTPException 422), [])"
    by (auto simp: analyze_documents_def validate_def MAX_FILES_def)
next
  assume "1 \<le> length files \<and> length files \<le> 10 \<and>
    list_all (\<lambda>f. is_allowed_extension (case filename f of None \<Rightarrow> [] | Some n \<Rightarrow> n)) files"
  then have "validate files = None"
    by (auto simp: validate_def MAX_FILES_def list_ex_iff list_all_iff)
  then show "\<exists>rest. snd (analyze_documents cfg files user_instructions) = ReadFile 0 # rest"
    by (rule reading_follows_validation)
qed

text \<open>
  The theorem at a request without files, at a request with a spreadsheet and a \<open>.txt\<close>
  file, and at a request with the spreadsheet alone, which is read and extracted before
  the loading of the prompt template fails.
\<close>

lemma sample_run:
  "analyze_documents sample_env
     [\<lparr>filename = Some (u ''balance.XLSX''), content = u ''assets 100''\<rparr>] []
   = (Inl (HTTPException 500),
      [ReadFile 0, ExtractText (u ''balance.XLSX''), LoadPrompt (u ''prompts/extraction_prompt.txt'')])"
  by (simp add: analyze_documents_def validate_def MAX_FILES_def sample_env_def sample_extractors_def
      ext_defs extract_text_def IMAGE_EXTENSIONS_def clean_defs combine_extracted_texts_def
      file_part_def estimate_tokens_def run_steps_def)

theorem validation_precedes_everything_witness:
  "analyze_documents sample_env [] [] = (Inl (HTTPException 400), []) \<and>
   analyze_documents sample_env
     [\<lparr>filename = Some (u ''balance.XLSX''), content = u ''assets 100''\<rparr>,
      \<lparr>filename = Some (u ''notes.txt''), content = u ''hello''\<rparr>] []
     = (Inl (HTTPException 422), []) \<and>
   analyze_documents sample_env
     [\<lparr>filename = Some (u ''balance.XLSX''), content = u ''assets 100''\<rparr>] []
     = (Inl (HTTPException 500),
        [ReadFile 0, ExtractText (u ''balance.XLSX''),
         LoadPrompt (u ''prompts/extraction_prompt.txt'')])"
proof -
  let ?two = "[\<lparr>filename = Some (u ''balance.XLSX''), content = u ''assets 100''\<rparr>,
      \<lparr>filename = Some (u ''notes.txt''), content = u ''hello''\<rparr>]"
  let ?one = "[\<lparr>filename = Some (u ''balance.XLSX''), content = u ''assets 100''\<rparr>]"
  have a: "length ([] :: upload list) < 1 \<or> 10 < length ([] :: upload list)" by simp
  have b: "1 \<le> length ?two \<and> length ?two \<le> 10 \<and>
    list_ex (\<lambda>f. \<not> is_allowed_extension (case filename f of None \<Rightarrow> [] | Some n \<Rightarrow> n)) ?two"
    by (simp add: ext_defs)
  have c: "1 \<le> length ?one \<and> length ?one \<le> 10 \<and>
    list_all (\<lambda>f. is_allowed_extension (case filename f of None \<Rightarrow> [] | Some n \<Rightarrow> n)) ?one"
    by (simp add: ext_defs)
  from c validation_precedes_everything[of ?one sample_env "[]"]
  have "\<exists>rest. snd (analyze_documents sample_env ?one []) = ReadFile 0 # rest" by blast
  then show ?thesis
    using a b validation_precedes_everything[of "[]" sample_env "[]"]
      validation_precedes_everything[of ?two sample_env "[]"] sample_run
    by blast
qed

subsection \<open>Files of the same name\<close>



end
